theory Spec2Isabelle
  imports Main "HOL-Library.Word"
begin

section \<open>Bytes, machine integers and arbitrary-precision integers\<close>

text \<open>
  The Go source works on \<^verbatim>\<open>[]byte\<close>, \<^verbatim>\<open>byte\<close>, \<^verbatim>\<open>uint64\<close> and
  \<^verbatim>\<open>*big.Int\<close>.  Bytes and 64-bit integers are words (arithmetic wraps), a byte slice
  is a list and a \<^verbatim>\<open>big.Int\<close> is an \<open>int\<close>.
\<close>

type_synonym byte = "8 word"
type_synonym bytes = "byte list"
type_synonym uint64 = "64 word"

text \<open>\<^verbatim>\<open>new(big.Int).SetBytes(b)\<close>: \<open>b\<close> read as a big-endian unsigned integer.\<close>

definition be_nat :: "bytes \<Rightarrow> nat" where
  "be_nat bs = foldl (\<lambda>a b. a * 256 + unat b) 0 bs"

definition SetBytes :: "bytes \<Rightarrow> int" where
  "SetBytes bs = int (be_nat bs)"

text \<open>The minimal big-endian byte string of a natural number (empty for 0).\<close>

fun nat_bytes :: "nat \<Rightarrow> bytes" where
  "nat_bytes n = (if n = 0 then [] else nat_bytes (n div 256) @ [of_nat (n mod 256)])"

declare nat_bytes.simps [simp del]

text \<open>\<^verbatim>\<open>x.Bytes()\<close>: the minimal big-endian byte string of the absolute value of \<open>x\<close>.\<close>

definition Bytes :: "int \<Rightarrow> bytes" where
  "Bytes x = nat_bytes (nat \<bar>x\<bar>)"

text \<open>\<^verbatim>\<open>x.BitLen()\<close>: the length in bits of the absolute value of \<open>x\<close>.\<close>

fun bit_len :: "nat \<Rightarrow> nat" where
  "bit_len n = (if n = 0 then 0 else Suc (bit_len (n div 2)))"

declare bit_len.simps [simp del]

definition BitLen :: "int \<Rightarrow> nat" where
  "BitLen x = bit_len (nat \<bar>x\<bar>)"

text \<open>
  \<^verbatim>\<open>x.Uint64()\<close>: the low 64 bits of the absolute value of \<open>x\<close> (\<^verbatim>\<open>low64(x.abs)\<close>
  in \<^verbatim>\<open>math/big\<close>); the sign is ignored.
\<close>

definition Uint64 :: "int \<Rightarrow> uint64" where
  "Uint64 x = of_nat (nat \<bar>x\<bar>)"

text \<open>\<^verbatim>\<open>x.Sign()\<close>: -1, 0 or 1.\<close>

definition Sign_big :: "int \<Rightarrow> int" where
  "Sign_big x = sgn x"

section \<open>Chain-id derivation\<close>

text \<open>
  \<^verbatim>\<open>deriveChainID\<close>: for a \<open>v\<close> of at most 64 bits the arithmetic is that of
  \<^verbatim>\<open>uint64\<close>, so \<open>v - 35\<close> wraps around; otherwise it is arbitrary-precision, and
  \<^verbatim>\<open>Div\<close> by the positive constant 2 is Euclidean division, which is \<open>div\<close> on \<open>int\<close>.
\<close>

definition deriveChainID :: "int \<Rightarrow> int" where
  "deriveChainID v =
     (if BitLen v \<le> 64 then
        (let v64 = Uint64 v in
         if v64 = 27 \<or> v64 = 28 then 0
         else uint ((v64 - 35) div 2))
      else (v - 35) div 2)"


section \<open>Addresses, hashes and the cryptographic primitives\<close>

text \<open>
  \<^verbatim>\<open>ethcmn.Hash\<close> is the array type \<^verbatim>\<open>[32]byte\<close>: a value of it always has 32 bytes.
  It is a 256-bit word here; \<open>hash_bytes\<close> is \<^verbatim>\<open>h.Bytes()\<close> and \<^verbatim>\<open>h[:]\<close>.
\<close>

type_synonym hash = "256 word"

definition hash_bytes :: "hash \<Rightarrow> bytes" where
  "hash_bytes h = map (\<lambda>i. ucast (drop_bit (8 * (31 - i)) h)) [0..<32]"

text \<open>
  \<^verbatim>\<open>ethcmn.Address\<close> is \<^verbatim>\<open>[20]byte\<close>; it is a byte list that the functions below
  always build with 20 elements.  \<^verbatim>\<open>copy(dst, src)\<close> overwrites the first
  \<open>min (length dst) (length src)\<close> elements of \<open>dst\<close>.
\<close>

type_synonym address = bytes

definition copy_into :: "bytes \<Rightarrow> bytes \<Rightarrow> bytes" where
  "copy_into dst src = take (length dst) src @ drop (length src) dst"

text \<open>
  \<^verbatim>\<open>ethcmn.BytesToAddress\<close>: keeps the last 20 bytes of a longer input and right-aligns
  a shorter one in a zeroed array.
\<close>

definition BytesToAddress :: "bytes \<Rightarrow> address" where
  "BytesToAddress b =
     (let b' = (if length b > 20 then drop (length b - 20) b else b)
      in replicate (20 - length b') 0 @ b')"

text \<open>
  The primitives of \<^verbatim>\<open>go-ethereum/crypto\<close> that the file calls are parameters of the
  model: the 256-bit hash, \<^verbatim>\<open>Sign\<close> and \<^verbatim>\<open>Ecrecover\<close> (\<open>None\<close> is a non-nil
  \<^verbatim>\<open>err\<close>), and the 65-byte uncompressed encoding of the public key of a private key
  (\<^verbatim>\<open>FromECDSAPub\<close>).
\<close>

record 'k crypto =
  Keccak256 :: "bytes \<Rightarrow> hash"
  ecdsa_Sign :: "bytes \<Rightarrow> 'k \<Rightarrow> bytes option"
  Ecrecover :: "bytes \<Rightarrow> bytes \<Rightarrow> bytes option"
  FromECDSAPub :: "'k \<Rightarrow> bytes"

text \<open>\<^verbatim>\<open>ethcrypto.PubkeyToAddress\<close>: the address of a key pair.\<close>

definition PubkeyToAddress :: "'k crypto \<Rightarrow> 'k \<Rightarrow> address" where
  "PubkeyToAddress cr priv =
     BytesToAddress (drop 12 (hash_bytes (Keccak256 cr (drop 1 (FromECDSAPub cr priv)))))"

text \<open>
  \<^verbatim>\<open>ethcrypto.ValidateSignatureValues\<close>, as \<^verbatim>\<open>go-ethereum/crypto\<close> defines it, with
  the order \<open>N\<close> of secp256k1: \<open>r\<close> and
  \<open>s\<close> in \<open>[1, N)\<close>, with \<^verbatim>\<open>homestead\<close> also \<open>s \<le> N div 2\<close>, and a recovery id of 0
  or 1.
\<close>

definition secp256k1N :: int where
  "secp256k1N = 0xfffffffffffffffffffffffffffffffebaaedce6af48a03bbfd25e8cd0364141"

definition secp256k1halfN :: int where
  "secp256k1halfN = secp256k1N div 2"

definition ValidateSignatureValues :: "byte \<Rightarrow> int \<Rightarrow> int \<Rightarrow> bool \<Rightarrow> bool" where
  "ValidateSignatureValues v r s homestead =
     (if r < 1 \<or> s < 1 then False
      else if homestead \<and> s > secp256k1halfN then False
      else r < secp256k1N \<and> s < secp256k1N \<and> (v = 0 \<or> v = 1))"

section \<open>Recursive-length-prefix encoding\<close>

text \<open>
  The package \<^verbatim>\<open>go-ethereum/rlp\<close> is a dependency of the repository; the definitions
  follow the rules of its encoder.  The values that the file hands to \<^verbatim>\<open>rlp.Encode\<close>
  are unsigned machine integers, \<^verbatim>\<open>*big.Int\<close>, byte slices and byte arrays, and lists
  (a \<^verbatim>\<open>[]interface{}\<close> or the fields of a struct).
\<close>

datatype rlp_item = RUint uint64 | RBig int | RString bytes | RList "rlp_item list"

definition encodeStringHeader :: "nat \<Rightarrow> bytes" where
  "encodeStringHeader n =
     (if n < 56 then [0x80 + of_nat n]
      else (let ss = nat_bytes n in (0xB7 + of_nat (length ss)) # ss))"

definition encodeListHeader :: "nat \<Rightarrow> bytes" where
  "encodeListHeader n =
     (if n < 56 then [0xC0 + of_nat n]
      else (let ss = nat_bytes n in (0xF7 + of_nat (length ss)) # ss))"

definition writeBytes :: "bytes \<Rightarrow> bytes" where
  "writeBytes b =
     (if length b = 1 \<and> hd b \<le> 0x7F then b
      else encodeStringHeader (length b) @ b)"

definition writeUint :: "uint64 \<Rightarrow> bytes" where
  "writeUint i =
     (if i = 0 then [0x80]
      else if i < 128 then [ucast i]
      else (let bs = nat_bytes (unat i) in (0x80 + of_nat (length bs)) # bs))"

text \<open>A negative \<^verbatim>\<open>*big.Int\<close> cannot be encoded: \<^verbatim>\<open>rlp.Encode\<close> returns an error.\<close>

definition writeBigInt :: "int \<Rightarrow> bytes option" where
  "writeBigInt i =
     (if i < 0 then None
      else if i = 0 then Some [0x80]
      else Some (writeBytes (Bytes i)))"

fun rlp_encode :: "rlp_item \<Rightarrow> bytes option"
  and rlp_encode_list :: "rlp_item list \<Rightarrow> bytes option" where
  "rlp_encode (RUint i) = Some (writeUint i)"
| "rlp_encode (RBig i) = writeBigInt i"
| "rlp_encode (RString b) = Some (writeBytes b)"
| "rlp_encode (RList xs) =
     (case rlp_encode_list xs of
        None \<Rightarrow> None
      | Some payload \<Rightarrow> Some (encodeListHeader (length payload) @ payload))"
| "rlp_encode_list [] = Some []"
| "rlp_encode_list (x # xs) =
     (case rlp_encode x of
        None \<Rightarrow> None
      | Some e \<Rightarrow> (case rlp_encode_list xs of None \<Rightarrow> None | Some es \<Rightarrow> Some (e @ es)))"

text \<open>
  Modelled from the spec: \<^verbatim>\<open>rlpHash\<close> is defined in another file of the package; it
  is the 256-bit hash of the recursive-length-prefix encoding of its argument.  An encoding
  error leaves the hasher without input.
\<close>

definition rlpHash :: "'k crypto \<Rightarrow> rlp_item \<Rightarrow> hash" where
  "rlpHash cr x = Keccak256 cr (case rlp_encode x of None \<Rightarrow> [] | Some bs \<Rightarrow> bs)"

section \<open>The transaction\<close>

text \<open>
  Modelled from the spec: the struct \<^verbatim>\<open>TxData\<close> is declared in another file of the
  package.  Its nine fields and their types are those that \<^verbatim>\<open>newMsgEthereumTx\<close>
  fills, two \<^verbatim>\<open>uint64\<close> and seven byte slices; their order is that of the signing
  payload, followed by \<open>V\<close>, \<open>R\<close> and \<open>S\<close>.
\<close>

record TxData =
  AccountNonce :: uint64
  Price :: bytes
  GasLimit :: uint64
  Recipient :: bytes
  Amount :: bytes
  Payload :: bytes
  V :: bytes
  R :: bytes
  S :: bytes

text \<open>
  A \<^verbatim>\<open>*big.Int\<close> argument is a pointer: the caller keeps it and may change the integer
  behind it between two calls.  The integers that such pointers refer to are in a store;
  \<^verbatim>\<open>SetInt64\<close> is the caller's assignment.  \<^verbatim>\<open>Sign\<close>, \<^verbatim>\<open>RLPSignBytes\<close> and
  \<^verbatim>\<open>deriveChainID\<close> only read their argument and keep nothing of it, so they take its
  value.
\<close>

type_synonym ptr = nat
type_synonym big_store = "ptr \<Rightarrow> int"

definition big_SetInt64 :: "big_store \<Rightarrow> ptr \<Rightarrow> int \<Rightarrow> big_store" where
  "big_SetInt64 st p k = st(p := k)"

text \<open>
  \<^verbatim>\<open>ethtypes.EIP155Signer\<close>: \<^verbatim>\<open>NewEIP155Signer\<close> keeps the pointer it is given in the
  field \<^verbatim>\<open>chainId\<close> and computes \<^verbatim>\<open>chainIdMul\<close> into an integer of its own;
  \<^verbatim>\<open>Equal\<close> compares the integers behind the two \<^verbatim>\<open>chainId\<close> pointers as they are
  at the time of the call.
\<close>

record EIP155Signer =
  chainId :: ptr
  chainIdMul :: int

definition NewEIP155Signer :: "big_store \<Rightarrow> ptr \<Rightarrow> EIP155Signer" where
  "NewEIP155Signer st chainID = \<lparr>chainId = chainID, chainIdMul = st chainID * 2\<rparr>"

definition signer_Equal :: "big_store \<Rightarrow> EIP155Signer \<Rightarrow> EIP155Signer \<Rightarrow> bool" where
  "signer_Equal st s s2 = (st (chainId s2) = st (chainId s))"

text \<open>
  \<^verbatim>\<open>SigCache\<close> holds the signer of the last successful recovery and the sender it
  found.  Every signer in this file is an \<^verbatim>\<open>EIP155Signer\<close>; the cached one still
  refers to the caller's chain id.
\<close>

record SigCache =
  sc_signer :: EIP155Signer
  sc_from :: bytes

text \<open>
  \<^verbatim>\<open>MsgEthereumTx\<close>: the data and the unexported caches \<^verbatim>\<open>size\<close> (a
  \<^verbatim>\<open>float64\<close> holding a byte count), \<^verbatim>\<open>hash\<close> and \<^verbatim>\<open>from\<close> (a pointer,
  \<open>None\<close> when nil).
\<close>

record MsgEthereumTx =
  Data :: TxData
  msg_size :: nat
  msg_hash :: hash
  msg_from :: "SigCache option"

datatype error =
    InvalidChainId        \<comment> \<open>\<^verbatim>\<open>chainID cannot be zero\<close>\<close>
  | InvalidSignature      \<comment> \<open>\<^verbatim>\<open>invalid signature\<close>\<close>
  | InvalidPublicKey      \<comment> \<open>\<^verbatim>\<open>invalid public key\<close>\<close>
  | EcrecoverError        \<comment> \<open>the error returned by \<^verbatim>\<open>Ecrecover\<close>\<close>
  | Panic string

text \<open>
  \<^verbatim>\<open>newMsgEthereumTx\<close>.  \<open>to\<close> is a pointer to an address; \<^verbatim>\<open>Bytes\<close> has a value
  receiver, so \<^verbatim>\<open>to.Bytes()\<close> dereferences \<open>to\<close> and panics when it is nil.
  \<open>amount\<close> and \<open>gasPrice\<close> are pointers that may be nil.  The payload is copied,
  which does not change its content.
\<close>

definition newMsgEthereumTx ::
  "uint64 \<Rightarrow> address option \<Rightarrow> int option \<Rightarrow> uint64 \<Rightarrow> int option \<Rightarrow> bytes
    \<Rightarrow> error + MsgEthereumTx" where
  "newMsgEthereumTx nonce to amount gasLimit gasPrice payload =
     (case to of
        None \<Rightarrow> Inl (Panic ''invalid memory address or nil pointer dereference'')
      | Some a \<Rightarrow>
          (let txData = \<lparr>AccountNonce = nonce, Price = [], GasLimit = gasLimit,
                          Recipient = a, Amount = [], Payload = payload,
                          V = [], R = [], S = []\<rparr>;
               txData = (case amount of None \<Rightarrow> txData
                         | Some x \<Rightarrow> txData\<lparr>Amount := Bytes x\<rparr>);
               txData = (case gasPrice of None \<Rightarrow> txData
                         | Some x \<Rightarrow> txData\<lparr>Price := Bytes x\<rparr>)
           in Inr \<lparr>Data = txData, msg_size = 0, msg_hash = 0, msg_from = None\<rparr>))"

definition NewMsgEthereumTx ::
  "uint64 \<Rightarrow> address option \<Rightarrow> int option \<Rightarrow> uint64 \<Rightarrow> int option \<Rightarrow> bytes
    \<Rightarrow> error + MsgEthereumTx" where
  "NewMsgEthereumTx nonce to amount gasLimit gasPrice payload =
     newMsgEthereumTx nonce to amount gasLimit gasPrice payload"

definition NewMsgEthereumTxContract ::
  "uint64 \<Rightarrow> int option \<Rightarrow> uint64 \<Rightarrow> int option \<Rightarrow> bytes \<Rightarrow> error + MsgEthereumTx" where
  "NewMsgEthereumTxContract nonce amount gasLimit gasPrice payload =
     newMsgEthereumTx nonce None amount gasLimit gasPrice payload"

text \<open>\<^verbatim>\<open>RLPSignBytes\<close>: the hash of the nine-element signing payload.\<close>

definition sign_payload :: "TxData \<Rightarrow> int \<Rightarrow> rlp_item" where
  "sign_payload d chainID =
     RList [RUint (AccountNonce d),
            RBig (SetBytes (Price d)),
            RUint (GasLimit d),
            RString (BytesToAddress (Recipient d)),
            RBig (SetBytes (Amount d)),
            RString (Payload d),
            RBig chainID,
            RUint 0,
            RUint 0]"

text \<open>
  The bytes of the nine elements of the signing payload in order: machine integers and
  big integers as minimal big-endian strings, the recipient as a 20-byte string, and the
  two placeholders as the empty string \<open>0x80\<close>.
\<close>

definition sign_payload_body :: "TxData \<Rightarrow> int \<Rightarrow> bytes" where
  "sign_payload_body d chainID =
     writeUint (AccountNonce d) @ writeBytes (Bytes (SetBytes (Price d))) @
     writeUint (GasLimit d) @ writeBytes (BytesToAddress (Recipient d)) @
     writeBytes (Bytes (SetBytes (Amount d))) @ writeBytes (Payload d) @
     writeBytes (Bytes chainID) @ [0x80, 0x80]"

definition RLPSignBytes :: "'k crypto \<Rightarrow> MsgEthereumTx \<Rightarrow> int \<Rightarrow> hash" where
  "RLPSignBytes cr msg chainID = rlpHash cr (sign_payload (Data msg) chainID)"

text \<open>\<^verbatim>\<open>EncodeRLP\<close>: the encoding of the struct \<^verbatim>\<open>msg.Data\<close>, a list of its fields.\<close>

definition TxData_items :: "TxData \<Rightarrow> rlp_item list" where
  "TxData_items d =
     [RUint (AccountNonce d), RString (Price d), RUint (GasLimit d),
      RString (Recipient d), RString (Amount d), RString (Payload d),
      RString (V d), RString (R d), RString (S d)]"

definition wire_payload :: "TxData \<Rightarrow> rlp_item" where
  "wire_payload d = RList (TxData_items d)"

text \<open>The bytes of the nine fields in order, the payload of the wire encoding.\<close>

definition wire_body :: "TxData \<Rightarrow> bytes" where
  "wire_body d =
     writeUint (AccountNonce d) @ writeBytes (Price d) @ writeUint (GasLimit d) @
     writeBytes (Recipient d) @ writeBytes (Amount d) @ writeBytes (Payload d) @
     writeBytes (V d) @ writeBytes (R d) @ writeBytes (S d)"

definition EncodeRLP :: "MsgEthereumTx \<Rightarrow> bytes option" where
  "EncodeRLP msg = rlp_encode (wire_payload (Data msg))"

text \<open>
  \<^verbatim>\<open>Hash\<close>: the field \<^verbatim>\<open>hash\<close> is a 32-byte array, and the test is on the length of
  its byte slice.  The result is the returned hash and the transaction after the call.
\<close>

definition Hash :: "'k crypto \<Rightarrow> MsgEthereumTx \<Rightarrow> hash \<times> MsgEthereumTx" where
  "Hash cr msg =
     (let msg' = (if length (hash_bytes (msg_hash msg)) = 0
                  then msg\<lparr>msg_hash := rlpHash cr (wire_payload (Data msg))\<rparr>
                  else msg)
      in (msg_hash msg', msg'))"

text \<open>
  \<^verbatim>\<open>Sign\<close>: both panics are error values.  \<^verbatim>\<open>sig[64] + 27\<close> and
  \<^verbatim>\<open>sig[64] + 35\<close> are byte additions.
\<close>

definition Sign :: "'k crypto \<Rightarrow> int \<Rightarrow> 'k \<Rightarrow> MsgEthereumTx \<Rightarrow> error + MsgEthereumTx" where
  "Sign cr chainID priv msg =
     (let txHash = RLPSignBytes cr msg chainID in
      case ecdsa_Sign cr (hash_bytes txHash) priv of
        None \<Rightarrow> Inl (Panic ''signing failed'')
      | Some sig \<Rightarrow>
          if length sig \<noteq> 65 then Inl (Panic ''wrong size for signature'')
          else
            (let r = SetBytes (take 32 sig);
                 s = SetBytes (take 32 (drop 32 sig));
                 v = (if Sign_big chainID = 0 then SetBytes [sig ! 64 + 27]
                      else uint (sig ! 64 + 35) + chainID * 2)
             in Inr (msg\<lparr>Data := (Data msg)\<lparr>V := Bytes v, R := Bytes r, S := Bytes s\<rparr>\<rparr>)))"

text \<open>
  \<^verbatim>\<open>recoverEthSig\<close>, with the number of calls of \<^verbatim>\<open>Ecrecover\<close> it made.  The slice
  expressions \<^verbatim>\<open>sig[32-len(r):32]\<close> and \<^verbatim>\<open>sig[64-len(s):64]\<close> panic for more than 32
  bytes.
\<close>

definition recoverEthSig ::
  "'k crypto \<Rightarrow> int \<Rightarrow> int \<Rightarrow> int \<Rightarrow> hash \<Rightarrow> (error + address) \<times> nat" where
  "recoverEthSig cr R' S' Vb sigHash =
     (if BitLen Vb > 8 then (Inl InvalidSignature, 0)
      else
        (let V' = (ucast (Uint64 Vb - 27) :: byte) in
         if \<not> ValidateSignatureValues V' R' S' True then (Inl InvalidSignature, 0)
         else
           (let r = Bytes R'; s = Bytes S' in
            if length r > 32 \<or> length s > 32
            then (Inl (Panic ''slice bounds out of range''), 0)
            else
              (let sig = replicate (32 - length r) 0 @ r @ replicate (32 - length s) 0 @ s @ [V']
               in case Ecrecover cr (hash_bytes sigHash) sig of
                    None \<Rightarrow> (Inl EcrecoverError, 1)
                  | Some pub \<Rightarrow>
                      if length pub = 0 \<or> hd pub \<noteq> 4 then (Inl InvalidPublicKey, 1)
                      else (Inr (copy_into (replicate 20 0)
                                   (drop 12 (hash_bytes (Keccak256 cr (drop 1 pub))))), 1)))))"

text \<open>
  \<^verbatim>\<open>VerifySig\<close> in a store: the result, the transaction after the call (the cache may
  be replaced) and the number of calls of \<^verbatim>\<open>Ecrecover\<close>.  \<open>chainID\<close> is the pointer
  that the caller passes; the store is not changed.
\<close>

definition VerifySig ::
  "'k crypto \<Rightarrow> big_store \<Rightarrow> ptr \<Rightarrow> MsgEthereumTx
    \<Rightarrow> (error + address) \<times> MsgEthereumTx \<times> nat" where
  "VerifySig cr st chainID msg =
     (let r = SetBytes (R (Data msg));
          s = SetBytes (S (Data msg));
          v = SetBytes (V (Data msg));
          signer = NewEIP155Signer st chainID
      in case (case msg_from msg of
                 None \<Rightarrow> None
               | Some c \<Rightarrow> if signer_Equal st signer (sc_signer c)
                           then Some (BytesToAddress (sc_from c)) else None) of
           Some a \<Rightarrow> (Inr a, msg, 0)
         | None \<Rightarrow>
             if Sign_big (st chainID) = 0 then (Inl InvalidChainId, msg, 0)
             else
               (let chainIDMul = st chainID * 2;
                    V' = v - chainIDMul - 8;
                    sigHash = RLPSignBytes cr msg (st chainID)
                in case recoverEthSig cr r s V' sigHash of
                     (Inl err, n) \<Rightarrow> (Inl err, msg, n)
                   | (Inr sender, n) \<Rightarrow>
                       (Inr sender,
                        msg\<lparr>msg_from := Some \<lparr>sc_signer = signer, sc_from = sender\<rparr>\<rparr>, n)))"

definition ChainID :: "MsgEthereumTx \<Rightarrow> int" where
  "ChainID msg = deriveChainID (SetBytes (V (Data msg)))"

text \<open>
  What the file relies on from a key pair when it signs the hash \<open>h\<close>:
  \<^verbatim>\<open>ethcrypto.Sign\<close> returns 65 bytes \<open>r || s || v\<close> with a recovery id of 0 or 1 and
  \<open>r\<close>, \<open>s\<close> in canonical (low-\<open>s\<close>) range, and \<^verbatim>\<open>Ecrecover\<close> finds from them the
  65-byte uncompressed public key of the private key.
\<close>

definition valid_keypair :: "'k crypto \<Rightarrow> 'k \<Rightarrow> bytes \<Rightarrow> bool" where
  "valid_keypair cr priv h =
     (case ecdsa_Sign cr h priv of
        None \<Rightarrow> False
      | Some sig \<Rightarrow>
          length sig = 65 \<and> (sig ! 64 = 0 \<or> sig ! 64 = 1) \<and>
          ValidateSignatureValues (sig ! 64) (SetBytes (take 32 sig))
            (SetBytes (take 32 (drop 32 sig))) True \<and>
          Ecrecover cr h sig = Some (FromECDSAPub cr priv) \<and>
          length (FromECDSAPub cr priv) = 65 \<and> hd (FromECDSAPub cr priv) = 4)"

section \<open>Decoding\<close>

text \<open>
  \<^verbatim>\<open>rlp.Stream\<close> as the file uses it: \<^verbatim>\<open>rlp.DecodeBytes\<close> makes a stream limited to
  the input, calls \<^verbatim>\<open>DecodeRLP\<close> and then refuses trailing bytes.  A stream position
  is the list of bytes still to read, at top level the rest of the input and inside a list
  the rest of the list's payload; asking for more bytes than are left is
  \<^verbatim>\<open>ErrValueTooLarge\<close> at top level and \<^verbatim>\<open>ErrElemTooLarge\<close> inside a list, and
  reading at the end is \<^verbatim>\<open>io.EOF\<close> at top level and \<^verbatim>\<open>EOL\<close> inside a list.
\<close>

datatype rlp_error =
    EOF | EOL | ErrExpectedString | ErrExpectedList | ErrCanonInt | ErrCanonSize
  | ErrElemTooLarge | ErrValueTooLarge | ErrUintOverflow
  | ErrTooFewElements | ErrTooManyElements | ErrMoreThanOneValue

datatype Kind = KByte | KString | KList

text \<open>\<^verbatim>\<open>readUint\<close>: a big-endian integer of \<open>n\<close> bytes, without a leading zero byte.\<close>

definition readUint :: "rlp_error \<Rightarrow> nat \<Rightarrow> bytes \<Rightarrow> rlp_error + nat \<times> bytes" where
  "readUint too_large n buf =
     (if n = 0 then Inr (0, buf)
      else if length buf < n then Inl too_large
      else if n = 1 then Inr (unat (hd buf), tl buf)
      else if hd buf = 0 then Inl ErrCanonSize
      else Inr (be_nat (take n buf), drop n buf))"

text \<open>
  \<^verbatim>\<open>Kind\<close> with \<^verbatim>\<open>readKind\<close>: the kind, the size, the value of a single byte and the
  position after the header.  The size must not exceed what is left.
\<close>

definition readKind ::
  "rlp_error \<Rightarrow> rlp_error \<Rightarrow> bytes \<Rightarrow> rlp_error + Kind \<times> nat \<times> byte \<times> bytes" where
  "readKind too_large at_end buf =
     (case buf of
        [] \<Rightarrow> Inl at_end
      | b # rest \<Rightarrow>
          if b < 0x80 then Inr (KByte, 0, b, rest)
          else if b < 0xB8 then Inr (KString, unat (b - 0x80), 0, rest)
          else if b < 0xC0 then
            (case readUint too_large (unat (b - 0xB7)) rest of
               Inl e \<Rightarrow> Inl e
             | Inr (n, rest') \<Rightarrow>
                 if n < 56 then Inl ErrCanonSize else Inr (KString, n, 0, rest'))
          else if b < 0xF8 then Inr (KList, unat (b - 0xC0), 0, rest)
          else
            (case readUint too_large (unat (b - 0xF7)) rest of
               Inl e \<Rightarrow> Inl e
             | Inr (n, rest') \<Rightarrow>
                 if n < 56 then Inl ErrCanonSize else Inr (KList, n, 0, rest')))"

definition stream_Kind ::
  "rlp_error \<Rightarrow> rlp_error \<Rightarrow> bytes \<Rightarrow> rlp_error + Kind \<times> nat \<times> byte \<times> bytes" where
  "stream_Kind too_large at_end buf =
     (case readKind too_large at_end buf of
        Inl e \<Rightarrow> Inl e
      | Inr (k, n, b, rest) \<Rightarrow> if n > length rest then Inl too_large else Inr (k, n, b, rest))"

text \<open>
  \<^verbatim>\<open>Stream.uint(64)\<close>, the decoder of a \<^verbatim>\<open>uint64\<close> field: a leading zero byte is
  \<^verbatim>\<open>ErrCanonInt\<close>, and so is the single byte 0.
\<close>

definition stream_uint64 ::
  "rlp_error \<Rightarrow> rlp_error \<Rightarrow> bytes \<Rightarrow> rlp_error + uint64 \<times> bytes" where
  "stream_uint64 too_large at_end buf =
     (case stream_Kind too_large at_end buf of
        Inl e \<Rightarrow> Inl e
      | Inr (KByte, n, b, rest) \<Rightarrow> if b = 0 then Inl ErrCanonInt else Inr (ucast b, rest)
      | Inr (KString, n, b, rest) \<Rightarrow>
          if n > 8 then Inl ErrUintOverflow
          else
            (case readUint too_large n rest of
               Inl e \<Rightarrow> if e = ErrCanonSize then Inl ErrCanonInt else Inl e
             | Inr (v, rest') \<Rightarrow>
                 if n > 0 \<and> v < 128 then Inl ErrCanonSize else Inr (of_nat v, rest'))
      | Inr (KList, n, b, rest) \<Rightarrow> Inl ErrExpectedString)"

text \<open>
  \<^verbatim>\<open>Stream.Bytes\<close>, the decoder of a byte-slice field: any content is taken as it is,
  except a single byte below 128 written with a header.
\<close>

definition stream_Bytes ::
  "rlp_error \<Rightarrow> rlp_error \<Rightarrow> bytes \<Rightarrow> rlp_error + bytes \<times> bytes" where
  "stream_Bytes too_large at_end buf =
     (case stream_Kind too_large at_end buf of
        Inl e \<Rightarrow> Inl e
      | Inr (KByte, n, b, rest) \<Rightarrow> Inr ([b], rest)
      | Inr (KString, n, b, rest) \<Rightarrow>
          if n = 1 \<and> hd rest < 128 then Inl ErrCanonSize
          else Inr (take n rest, drop n rest)
      | Inr (KList, n, b, rest) \<Rightarrow> Inl ErrExpectedString)"

text \<open>
  The decoder of a struct walks its fields in order inside the list; \<^verbatim>\<open>EOL\<close> at a
  field is "too few elements", and bytes left in the list after the last field are "too
  many elements".
\<close>

datatype field_type = FUint64 | FBytes

definition decode_field :: "field_type \<Rightarrow> bytes \<Rightarrow> rlp_error + rlp_item \<times> bytes" where
  "decode_field f buf =
     (case f of
        FUint64 \<Rightarrow>
          (case stream_uint64 ErrElemTooLarge EOL buf of
             Inl e \<Rightarrow> Inl e | Inr (i, rest) \<Rightarrow> Inr (RUint i, rest))
      | FBytes \<Rightarrow>
          (case stream_Bytes ErrElemTooLarge EOL buf of
             Inl e \<Rightarrow> Inl e | Inr (b, rest) \<Rightarrow> Inr (RString b, rest)))"

fun decode_fields :: "field_type list \<Rightarrow> bytes \<Rightarrow> rlp_error + rlp_item list \<times> bytes" where
  "decode_fields [] buf = Inr ([], buf)"
| "decode_fields (f # fs) buf =
     (case decode_field f buf of
        Inl e \<Rightarrow> if e = EOL then Inl ErrTooFewElements else Inl e
      | Inr (x, rest) \<Rightarrow>
          (case decode_fields fs rest of
             Inl e \<Rightarrow> Inl e
           | Inr (xs, rest') \<Rightarrow> Inr (x # xs, rest')))"

definition decode_struct ::
  "field_type list \<Rightarrow> bytes \<Rightarrow> rlp_error + rlp_item list \<times> bytes" where
  "decode_struct fs buf =
     (case stream_Kind ErrValueTooLarge EOF buf of
        Inl e \<Rightarrow> Inl e
      | Inr (k, n, b, rest) \<Rightarrow>
          if k \<noteq> KList then Inl ErrExpectedList
          else
            (case decode_fields fs (take n rest) of
               Inl e \<Rightarrow> Inl e
             | Inr (xs, left) \<Rightarrow>
                 if left \<noteq> [] then Inl ErrTooManyElements else Inr (xs, drop n rest)))"

text \<open>The types of the fields of \<^verbatim>\<open>TxData\<close> in order, and the struct built from decoded values.\<close>

definition TxData_fields :: "field_type list" where
  "TxData_fields = [FUint64, FBytes, FUint64, FBytes, FBytes, FBytes, FBytes, FBytes, FBytes]"

fun item_uint :: "rlp_item \<Rightarrow> uint64" where
  "item_uint (RUint i) = i"
| "item_uint _ = 0"

fun item_bytes :: "rlp_item \<Rightarrow> bytes" where
  "item_bytes (RString b) = b"
| "item_bytes _ = []"

definition TxData_of_items :: "rlp_item list \<Rightarrow> TxData" where
  "TxData_of_items xs =
     \<lparr>AccountNonce = item_uint (xs ! 0), Price = item_bytes (xs ! 1),
      GasLimit = item_uint (xs ! 2), Recipient = item_bytes (xs ! 3),
      Amount = item_bytes (xs ! 4), Payload = item_bytes (xs ! 5),
      V = item_bytes (xs ! 6), R = item_bytes (xs ! 7), S = item_bytes (xs ! 8)\<rparr>"

text \<open>A decoded value fits a field of the given type.\<close>

fun item_has_type :: "field_type \<Rightarrow> rlp_item \<Rightarrow> bool" where
  "item_has_type FUint64 (RUint i) = True"
| "item_has_type FBytes (RString b) = True"
| "item_has_type _ _ = False"

text \<open>\<^verbatim>\<open>rlp.ListSize\<close>: the size of a list with its header.\<close>

definition ListSize :: "nat \<Rightarrow> nat" where
  "ListSize n = (if n < 56 then 1 else 1 + length (nat_bytes n)) + n"

text \<open>
  \<^verbatim>\<open>DecodeRLP\<close>: the transaction after the call and the position after the value.  On
  an error the Go code may have overwritten some fields of \<^verbatim>\<open>msg.Data\<close> already; the
  model returns the error alone.
\<close>

definition DecodeRLP :: "bytes \<Rightarrow> MsgEthereumTx \<Rightarrow> rlp_error + MsgEthereumTx \<times> bytes" where
  "DecodeRLP buf msg =
     (case stream_Kind ErrValueTooLarge EOF buf of
        Inl e \<Rightarrow> Inl e
      | Inr (k, n, b, rest) \<Rightarrow>
          (case decode_struct TxData_fields buf of
             Inl e \<Rightarrow> Inl e
           | Inr (xs, after) \<Rightarrow>
               Inr (msg\<lparr>Data := TxData_of_items xs, msg_size := ListSize n\<rparr>, after)))"

definition DecodeBytes :: "bytes \<Rightarrow> MsgEthereumTx \<Rightarrow> rlp_error + MsgEthereumTx" where
  "DecodeBytes buf msg =
     (case DecodeRLP buf msg of
        Inl e \<Rightarrow> Inl e
      | Inr (msg', rest) \<Rightarrow> if rest \<noteq> [] then Inl ErrMoreThanOneValue else Inr msg')"

section \<open>A concrete instance of the primitives\<close>

text \<open>
  An instance of the primitives on which the model can be evaluated.  It is not a signature
  scheme: \<open>demo_Sign\<close> always returns the same 65 bytes (\<open>r = 1\<close>, \<open>s = 1\<close>, recovery
  id 0) and \<open>demo_Ecrecover\<close> always returns the same public key.
\<close>

definition demo_sig :: bytes where
  "demo_sig = replicate 31 0 @ [1] @ replicate 31 0 @ [1] @ [0]"

definition demo_pub :: bytes where
  "demo_pub = 4 # replicate 64 7"

definition demo_crypto :: "unit crypto" where
  "demo_crypto =
     \<lparr>Keccak256 = (\<lambda>bs. of_nat (be_nat bs)),
      ecdsa_Sign = (\<lambda>h k. Some demo_sig),
      Ecrecover = (\<lambda>h sig. Some demo_pub),
      FromECDSAPub = (\<lambda>k. demo_pub)\<rparr>"

definition demo_tx :: MsgEthereumTx where
  "demo_tx =
     \<lparr>Data = \<lparr>AccountNonce = 0, Price = [1], GasLimit = 21000,
               Recipient = replicate 20 0, Amount = [], Payload = [],
               V = [], R = [], S = []\<rparr>,
      msg_size = 0, msg_hash = 0, msg_from = None\<rparr>"

text \<open>
  A transaction with \<open>V = 1\<close>, \<open>R = 1\<close>, \<open>S = 1\<close>: for chain id 10 the value
  \<open>V - 2 * 10 - 8\<close> is \<open>-27\<close>.
\<close>

definition neg_tx :: MsgEthereumTx where
  "neg_tx = demo_tx\<lparr>Data := (Data demo_tx)\<lparr>V := [1], R := [1], S := [1]\<rparr>\<rparr>"

section \<open>Properties\<close>

subsection \<open>Big-endian byte strings\<close>

lemma be_nat_snoc: "be_nat (xs @ [b]) = be_nat xs * 256 + unat b"
  by (simp add: be_nat_def)

lemma be_nat_Nil: "be_nat [] = 0"
  by (simp add: be_nat_def)

lemma be_nat_append: "be_nat (xs @ ys) = be_nat xs * 256 ^ length ys + be_nat ys"
proof (induction ys rule: rev_induct)
  case Nil
  then show ?case by (simp add: be_nat_Nil)
next
  case (snoc y ys)
  have "be_nat (xs @ ys @ [y]) = be_nat ((xs @ ys) @ [y])" by simp
  also have "\<dots> = be_nat (xs @ ys) * 256 + unat y" by (rule be_nat_snoc)
  finally show ?case using snoc by (simp add: be_nat_snoc algebra_simps)
qed

lemma be_nat_Cons: "be_nat (x # xs) = unat x * 256 ^ length xs + be_nat xs"
  using be_nat_append [of "[x]" xs] be_nat_snoc [of "[]" x] by (simp add: be_nat_Nil)

lemma be_nat_lt: "be_nat xs < 256 ^ length xs"
proof (induction xs rule: rev_induct)
  case Nil
  then show ?case by (simp add: be_nat_Nil)
next
  case (snoc x xs)
  have "unat x < 256" using unsigned_less [of x] by simp
  with snoc show ?case by (simp add: be_nat_snoc)
qed

lemma unat_byte_of_nat_mod: "unat (of_nat (n mod 256) :: byte) = n mod 256"
  by (simp add: unat_of_nat)

lemma be_nat_nat_bytes: "be_nat (nat_bytes n) = n"
proof (induction n rule: nat_bytes.induct)
  case (1 n)
  show ?case
  proof (cases "n = 0")
    case True
    then show ?thesis by (simp add: nat_bytes.simps be_nat_Nil)
  next
    case False
    have "be_nat (nat_bytes n) = be_nat (nat_bytes (n div 256)) * 256 + n mod 256"
      using False by (simp add: nat_bytes.simps [of n] be_nat_snoc unat_byte_of_nat_mod del: of_nat_mod)
    then show ?thesis using "1.IH" [OF False] by simp
  qed
qed

lemma nat_bytes_0: "nat_bytes 0 = []"
  by (simp add: nat_bytes.simps)

lemma nat_bytes_eq_Nil: "nat_bytes n = [] \<longleftrightarrow> n = 0"
  by (simp add: nat_bytes.simps [of n])

lemma nat_bytes_step: "n \<noteq> 0 \<Longrightarrow> nat_bytes n = nat_bytes (n div 256) @ [of_nat (n mod 256)]"
  by (subst nat_bytes.simps) simp

lemma dropWhile_zero_snoc:
  "dropWhile (\<lambda>b. b = (0::byte)) (xs @ [x]) =
     (if (\<forall>b\<in>set xs. b = 0) \<and> x = 0 then [] else dropWhile (\<lambda>b. b = 0) xs @ [x])"
  by (induction xs) auto

lemma be_nat_eq_0: "be_nat xs = 0 \<longleftrightarrow> (\<forall>b\<in>set xs. b = 0)"
proof (induction xs rule: rev_induct)
  case Nil
  then show ?case by (simp add: be_nat_Nil)
next
  case (snoc x xs)
  have "be_nat (xs @ [x]) = 0 \<longleftrightarrow> be_nat xs = 0 \<and> unat x = 0"
    by (simp add: be_nat_snoc)
  then show ?case using snoc by (auto simp: unat_eq_0)
qed

lemma nat_bytes_be_nat: "nat_bytes (be_nat xs) = dropWhile (\<lambda>b. b = 0) xs"
proof (induction xs rule: rev_induct)
  case Nil
  then show ?case by (simp add: be_nat_Nil nat_bytes_0)
next
  case (snoc x xs)
  show ?case
  proof (cases "be_nat (xs @ [x]) = 0")
    case True
    then have "(\<forall>b\<in>set xs. b = 0) \<and> x = 0"
      using be_nat_eq_0 [of "xs @ [x]"] by simp
    then have "dropWhile (\<lambda>b. b = 0) (xs @ [x]) = []"
      by (subst dropWhile_zero_snoc) simp
    with True show ?thesis by (simp add: nat_bytes_0)
  next
    case False
    have nz: "\<not> ((\<forall>b\<in>set xs. b = 0) \<and> x = 0)"
      using False be_nat_eq_0 [of "xs @ [x]"] by auto
    have ux: "unat x < 256" using unsigned_less [of x] by simp
    have d: "be_nat (xs @ [x]) div 256 = be_nat xs" using ux by (simp add: be_nat_snoc)
    have m: "be_nat (xs @ [x]) mod 256 = unat x" using ux by (simp add: be_nat_snoc)
    have "nat_bytes (be_nat (xs @ [x])) = nat_bytes (be_nat xs) @ [of_nat (unat x)]"
      using nat_bytes_step [OF False] by (simp only: d m)
    also have "\<dots> = dropWhile (\<lambda>b. b = 0) xs @ [x]" using snoc by simp
    also have "\<dots> = dropWhile (\<lambda>b. b = 0) (xs @ [x])"
      using nz by (subst dropWhile_zero_snoc) simp
    finally show ?thesis .
  qed
qed

lemma length_nat_bytes_le: "length (nat_bytes n) \<le> k \<longleftrightarrow> n < 256 ^ k"
proof (induction n arbitrary: k rule: nat_bytes.induct)
  case (1 n)
  show ?case
  proof (cases "n = 0")
    case True
    then show ?thesis by (simp add: nat_bytes_0)
  next
    case False
    note nz = this
    show ?thesis
    proof (cases k)
      case 0
      with nz show ?thesis by (simp add: nat_bytes.simps [of n])
    next
      case (Suc j)
      have "length (nat_bytes n) \<le> Suc j \<longleftrightarrow> length (nat_bytes (n div 256)) \<le> j"
        using nz by (simp add: nat_bytes.simps [of n])
      also have "\<dots> \<longleftrightarrow> n div 256 < 256 ^ j" using "1.IH" [OF nz] .
      also have "\<dots> \<longleftrightarrow> n < 256 ^ Suc j" by (simp add: less_mult_imp_div_less div_less_iff_less_mult mult.commute)
      finally show ?thesis using Suc by simp
    qed
  qed
qed

lemma hd_nat_bytes: "n \<noteq> 0 \<Longrightarrow> hd (nat_bytes n) \<noteq> 0"
proof -
  assume nz: "n \<noteq> 0"
  have "nat_bytes (be_nat (nat_bytes n)) = dropWhile (\<lambda>b. b = 0) (nat_bytes n)"
    by (rule nat_bytes_be_nat)
  then have e: "dropWhile (\<lambda>b. b = 0) (nat_bytes n) = nat_bytes n"
    by (simp only: be_nat_nat_bytes)
  have "nat_bytes n \<noteq> []" using nz by (simp add: nat_bytes_eq_Nil)
  with e have "dropWhile (\<lambda>b. b = 0) (nat_bytes n) \<noteq> []" by simp
  then have "\<not> (hd (dropWhile (\<lambda>b. b = 0) (nat_bytes n)) = 0)" by (rule hd_dropWhile)
  with e show ?thesis by simp
qed

lemma SetBytes_Bytes: "SetBytes (Bytes x) = \<bar>x\<bar>"
  by (simp add: SetBytes_def Bytes_def be_nat_nat_bytes)

lemma pad_dropWhile: "replicate (length xs - length (dropWhile (\<lambda>b. b = (0::byte)) xs)) 0 @ dropWhile (\<lambda>b. b = 0) xs = xs"
proof (induction xs)
  case Nil
  then show ?case by simp
next
  case (Cons x xs)
  show ?case
  proof (cases "x = 0")
    case True
    have "length (dropWhile (\<lambda>b. b = 0) xs) \<le> length xs" by (rule length_dropWhile_le)
    then have "Suc (length xs) - length (dropWhile (\<lambda>b. b = 0) xs) = Suc (length xs - length (dropWhile (\<lambda>b. b = 0) xs))"
      by simp
    with True Cons show ?thesis by simp
  next
    case False
    then show ?thesis by simp
  qed
qed

lemma pad_Bytes_SetBytes: "replicate (length xs - length (Bytes (SetBytes xs))) 0 @ Bytes (SetBytes xs) = xs"
  by (simp add: Bytes_def SetBytes_def nat_bytes_be_nat pad_dropWhile)

subsection \<open>Bit lengths and 64-bit truncation\<close>

lemma bit_len_le_iff: "bit_len n \<le> k \<longleftrightarrow> n < 2 ^ k"
proof (induction n arbitrary: k rule: bit_len.induct)
  case (1 n)
  show ?case
  proof (cases "n = 0")
    case True
    then show ?thesis by (simp add: bit_len.simps)
  next
    case False
    note nz = this
    show ?thesis
    proof (cases k)
      case 0
      with nz show ?thesis by (simp add: bit_len.simps [of n])
    next
      case (Suc j)
      have "bit_len n \<le> Suc j \<longleftrightarrow> bit_len (n div 2) \<le> j"
        using nz by (simp add: bit_len.simps [of n])
      also have "\<dots> \<longleftrightarrow> n div 2 < 2 ^ j"
        using "1.IH" [OF nz] .
      also have "\<dots> \<longleftrightarrow> n < 2 ^ Suc j"
        by auto
      finally show ?thesis using Suc by simp
    qed
  qed
qed

lemma BitLen_le_iff: "BitLen x \<le> k \<longleftrightarrow> \<bar>x\<bar> < 2 ^ k"
proof -
  have "nat \<bar>x\<bar> < 2 ^ k \<longleftrightarrow> \<bar>x\<bar> < 2 ^ k"
    by (metis nat_less_numeral_power_cancel_iff)
  then show ?thesis by (simp add: BitLen_def bit_len_le_iff)
qed

lemma Uint64_word_of_int: "Uint64 x = word_of_int \<bar>x\<bar>"
  by (simp add: Uint64_def)

lemma uint_Uint64: "\<bar>x\<bar> < 2 ^ 64 \<Longrightarrow> uint (Uint64 x) = \<bar>x\<bar>"
  by (simp add: Uint64_word_of_int uint_word_of_int_eq take_bit_int_eq_self)

subsection \<open>The transaction hash and the constructors\<close>

lemma length_hash_bytes: "length (hash_bytes h) = 32"
  by (simp add: hash_bytes_def)

text \<open>
  C2: \<^verbatim>\<open>Hash\<close> is documented to hash the encoding of the transaction and to keep the
  result.  The test \<^verbatim>\<open>len(msg.hash.Bytes()) == 0\<close> is on a 32-byte array and is never
  true, so the hash is never computed: \<^verbatim>\<open>Hash\<close> returns the stored field, whatever the
  hash function and the data are, and leaves the transaction unchanged.
\<close>

theorem Hash_returns_stored_field:
  "Hash cr msg = (msg_hash msg, msg) \<and>
   fst (Hash cr \<lparr>Data = d, msg_size = 0, msg_hash = 0, msg_from = None\<rparr>) = 0"
  by (simp add: Hash_def length_hash_bytes)

text \<open>
  C3: \<^verbatim>\<open>NewMsgEthereumTxContract\<close> passes a nil recipient, which
  \<^verbatim>\<open>newMsgEthereumTx\<close> dereferences: no contract-creation transaction is constructed.
\<close>

theorem NewMsgEthereumTxContract_panics:
  "NewMsgEthereumTxContract nonce amount gasLimit gasPrice payload =
     Inl (Panic ''invalid memory address or nil pointer dereference'')"
  by (simp add: NewMsgEthereumTxContract_def newMsgEthereumTx_def)

subsection \<open>Signing and chain-id derivation\<close>

lemma deriveChainID_27: "deriveChainID 27 = 0"
  by (simp add: deriveChainID_def Uint64_word_of_int BitLen_le_iff)

lemma deriveChainID_28: "deriveChainID 28 = 0"
  by (simp add: deriveChainID_def Uint64_word_of_int BitLen_le_iff)

lemma deriveChainID_ge_35:
  assumes "35 \<le> v"
  shows "deriveChainID v = (v - 35) div 2"
proof (cases "BitLen v \<le> 64")
  case True
  then have small: "\<bar>v\<bar> < 2 ^ 64" by (simp add: BitLen_le_iff)
  have u: "uint (Uint64 v) = v" using uint_Uint64 [OF small] assms by simp
  have ne: "Uint64 v \<noteq> 27" "Uint64 v \<noteq> 28"
    using u assms by auto
  have "uint ((Uint64 v - 35) div 2) = uint (Uint64 v - 35) div 2"
    by (simp add: uint_div)
  also have "uint (Uint64 v - 35) = v - 35"
    using u assms by (simp add: uint_sub_if')
  finally show ?thesis
    using True ne by (simp add: deriveChainID_def Let_def)
next
  case False
  then show ?thesis by (simp add: deriveChainID_def)
qed

lemma Sign_big_eq_0: "Sign_big x = 0 \<longleftrightarrow> x = 0"
  by (simp add: Sign_big_def sgn_if)

lemma SetBytes_single: "SetBytes [b] = uint b"
  by (simp add: SetBytes_def be_nat_def)

lemma Sign_result:
  assumes "ecdsa_Sign cr (hash_bytes (RLPSignBytes cr msg chainID)) priv = Some sig"
    and "length sig = 65"
  shows "Sign cr chainID priv msg =
           Inr (msg\<lparr>Data := (Data msg)
                  \<lparr>V := Bytes (if chainID = 0 then uint (sig ! 64 + 27)
                               else uint (sig ! 64 + 35) + chainID * 2),
                   R := Bytes (SetBytes (take 32 sig)),
                   S := Bytes (SetBytes (take 32 (drop 32 sig)))\<rparr>\<rparr>)"
  using assms by (simp add: Sign_def Let_def Sign_big_eq_0 SetBytes_single)

lemma Sign_ChainID_general:
  assumes c: "0 \<le> chainID"
    and sg: "ecdsa_Sign cr (hash_bytes (RLPSignBytes cr msg chainID)) priv = Some sig"
    and len: "length sig = 65"
    and recid: "sig ! 64 = 0 \<or> sig ! 64 = 1"
  shows "\<exists>msg'. Sign cr chainID priv msg = Inr msg' \<and> ChainID msg' = chainID \<and>
           SetBytes (V (Data msg')) =
             (if chainID = 0 then 27 + uint (sig ! 64) else 35 + uint (sig ! 64) + 2 * chainID)"
proof -
  let ?v = "if chainID = 0 then uint (sig ! 64 + 27) else uint (sig ! 64 + 35) + chainID * 2"
  let ?m = "msg\<lparr>Data := (Data msg)\<lparr>V := Bytes ?v, R := Bytes (SetBytes (take 32 sig)),
                   S := Bytes (SetBytes (take 32 (drop 32 sig)))\<rparr>\<rparr>"
  have s: "Sign cr chainID priv msg = Inr ?m" by (rule Sign_result [OF sg len])
  have b27: "uint (sig ! 64 + 27) = 27 + uint (sig ! 64)" using recid by auto
  have b35: "uint (sig ! 64 + 35) = 35 + uint (sig ! 64)" using recid by auto
  have r01: "uint (sig ! 64) = 0 \<or> uint (sig ! 64) = 1" using recid by auto
  have vnn: "0 \<le> ?v" using c by simp
  have V: "SetBytes (V (Data ?m)) = ?v" using vnn by (simp add: SetBytes_Bytes)
  have "deriveChainID ?v = chainID"
  proof (cases "chainID = 0")
    case True
    then show ?thesis using r01 b27 by (auto simp: deriveChainID_27 deriveChainID_28)
  next
    case False
    then have "35 \<le> ?v" using c b35 by simp
    then have "deriveChainID ?v = (?v - 35) div 2" by (rule deriveChainID_ge_35)
    then show ?thesis using False r01 b35 by auto
  qed
  then have "ChainID ?m = chainID" using V by (simp add: ChainID_def)
  moreover have "SetBytes (V (Data ?m)) =
      (if chainID = 0 then 27 + uint (sig ! 64) else 35 + uint (sig ! 64) + 2 * chainID)"
    using V b27 b35 by simp
  ultimately show ?thesis using s by blast
qed

text \<open>
  C4: for a chain id among 0, 1, 5 and \<open>2^40 + 7\<close> and a signature primitive that returns
  65 bytes with a recovery id of 0 or 1, \<^verbatim>\<open>ChainID\<close> after \<^verbatim>\<open>Sign\<close> is the chain id
  that was signed for.  \<^verbatim>\<open>Sign\<close> stores \<open>V = 27 + recovery id\<close> for chain id 0 and
  \<open>V = 35 + recovery id + 2 * chainID\<close> otherwise; \<^verbatim>\<open>deriveChainID\<close> maps 27 and 28 to
  0 and such a \<open>V\<close> to \<open>(V - 35) div 2\<close>.
\<close>

theorem Sign_ChainID_inverse:
  assumes "chainID \<in> {0, 1, 5, 2 ^ 40 + 7}"
    and "ecdsa_Sign cr (hash_bytes (RLPSignBytes cr msg chainID)) priv = Some sig"
    and "length sig = 65"
    and "sig ! 64 = 0 \<or> sig ! 64 = 1"
  shows "\<exists>msg'. Sign cr chainID priv msg = Inr msg' \<and> ChainID msg' = chainID \<and>
           SetBytes (V (Data msg')) =
             (if chainID = 0 then 27 + uint (sig ! 64) else 35 + uint (sig ! 64) + 2 * chainID) \<and>
           deriveChainID (SetBytes (V (Data msg'))) = 
             (if chainID = 0 then 0 else (SetBytes (V (Data msg')) - 35) div 2)"
proof -
  have c: "0 \<le> chainID" using assms(1) by auto
  obtain msg' where m: "Sign cr chainID priv msg = Inr msg'" "ChainID msg' = chainID"
    "SetBytes (V (Data msg')) =
       (if chainID = 0 then 27 + uint (sig ! 64) else 35 + uint (sig ! 64) + 2 * chainID)"
    using Sign_ChainID_general [OF c assms(2) assms(3) assms(4)] by blast
  have r01: "uint (sig ! 64) = 0 \<or> uint (sig ! 64) = 1" using assms(4) by auto
  have "deriveChainID (SetBytes (V (Data msg'))) =
          (if chainID = 0 then 0 else (SetBytes (V (Data msg')) - 35) div 2)"
    using m(2) m(3) r01 c by (auto simp: ChainID_def)
  with m show ?thesis by blast
qed

theorem Sign_ChainID_inverse_witness:
  "\<exists>msg'. Sign demo_crypto (2 ^ 40 + 7) () demo_tx = Inr msg' \<and> ChainID msg' = 2 ^ 40 + 7"
proof -
  have 1: "(2 ^ 40 + 7 :: int) \<in> {0, 1, 5, 2 ^ 40 + 7}" by simp
  have 2: "ecdsa_Sign demo_crypto (hash_bytes (RLPSignBytes demo_crypto demo_tx (2 ^ 40 + 7))) ()
             = Some demo_sig"
    by (simp add: demo_crypto_def)
  have 3: "length demo_sig = 65" by (simp add: demo_sig_def)
  have 4: "demo_sig ! 64 = 0 \<or> demo_sig ! 64 = 1" by (simp add: demo_sig_def nth_append)
  show ?thesis using Sign_ChainID_inverse [OF 1 2 3 4] by blast
qed

text \<open>
  C10: a \<open>v\<close> below 35 other than 27 and 28 (it fits in 64 bits) yields the wrapped
  value \<open>(v - 35 + 2^64) div 2\<close>, a large positive chain id, not an error, zero or a
  negative value.  \<^verbatim>\<open>ChainID\<close> reads \<open>v\<close> from bytes, so it is not negative; for an
  unsigned transaction it is 0.
\<close>

theorem deriveChainID_wraps_below_35:
  assumes "0 \<le> v" and "v < 35" and "v \<noteq> 27" and "v \<noteq> 28"
  shows "deriveChainID v = (v - 35 + 2 ^ 64) div 2 \<and> 2 ^ 62 \<le> deriveChainID v \<and>
         (SetBytes (V (Data msg)) = v \<longrightarrow> ChainID msg = (v - 35 + 2 ^ 64) div 2)"
proof -
  have small: "\<bar>v\<bar> < 2 ^ 64" using assms by simp
  have u: "uint (Uint64 v) = v" using uint_Uint64 [OF small] assms by simp
  have bl: "BitLen v \<le> 64" using small by (simp add: BitLen_le_iff)
  have ne: "Uint64 v \<noteq> 27" "Uint64 v \<noteq> 28"
    using u assms by auto
  have "uint ((Uint64 v - 35) div 2) = uint (Uint64 v - 35) div 2"
    by (simp add: uint_div)
  also have "uint (Uint64 v - 35) = v - 35 + 2 ^ 64"
    using u assms by (simp add: uint_sub_if')
  finally have "deriveChainID v = (v - 35 + 2 ^ 64) div 2"
    using bl ne by (simp add: deriveChainID_def Let_def)
  then show ?thesis using assms by (simp add: ChainID_def)
qed

theorem deriveChainID_wraps_below_35_witness:
  "deriveChainID 0 = 9223372036854775790 \<and> ChainID demo_tx = 9223372036854775790"
  using deriveChainID_wraps_below_35 [of 0 demo_tx]
  by (simp add: demo_tx_def SetBytes_def be_nat_Nil)

subsection \<open>Signature verification and the sender cache\<close>

lemma length_copy_into: "length (copy_into dst src) = length dst"
  by (simp add: copy_into_def)

lemma copy_into_same_length: "length src = length dst \<Longrightarrow> copy_into dst src = src"
  by (simp add: copy_into_def)

lemma length_BytesToAddress: "length (BytesToAddress b) = 20"
  by (simp add: BytesToAddress_def Let_def)

lemma BytesToAddress_20: "length b = 20 \<Longrightarrow> BytesToAddress b = b"
  by (simp add: BytesToAddress_def Let_def)

lemma recoverEthSig_length:
  "recoverEthSig cr r s v h = (Inr a, n) \<Longrightarrow> length a = 20 \<and> n = 1"
  by (auto simp: recoverEthSig_def Let_def length_copy_into split: if_splits option.splits)

lemma recoverEthSig_calls: "snd (recoverEthSig cr r s v h) \<le> 1"
  by (auto simp: recoverEthSig_def Let_def split: if_splits option.splits)

lemma Sign_msg_from: "Sign cr c k m = Inr m' \<Longrightarrow> msg_from m' = msg_from m"
  by (auto simp: Sign_def Let_def split: option.splits if_splits)

lemma be_nat_replicate_0: "be_nat (replicate n 0) = 0"
  by (simp add: be_nat_eq_0)

lemma demo_sig_facts:
  "length demo_sig = 65" "demo_sig ! 64 = 0"
  "SetBytes (take 32 demo_sig) = 1" "SetBytes (take 32 (drop 32 demo_sig)) = 1"
  using be_nat_snoc [of "replicate 31 0" 1]
  by (simp_all add: demo_sig_def nth_append SetBytes_def be_nat_replicate_0)

lemma secp256k1halfN_ge_1: "1 \<le> secp256k1halfN"
  by (simp add: secp256k1halfN_def secp256k1N_def)

lemma Validate_1_1: "ValidateSignatureValues 0 1 1 True"
  using secp256k1halfN_ge_1 by (simp add: ValidateSignatureValues_def secp256k1N_def)

lemma demo_valid_keypair: "valid_keypair demo_crypto () h"
  by (simp add: valid_keypair_def demo_crypto_def demo_sig_facts Validate_1_1 demo_pub_def)

lemma demo_tx_constructed:
  "NewMsgEthereumTx 0 (Some (replicate 20 0)) (Some 0) 21000 (Some 1) [] = Inr demo_tx"
  by (simp add: NewMsgEthereumTx_def newMsgEthereumTx_def demo_tx_def Bytes_def nat_bytes.simps)

lemma VerifySig_hit:
  "msg_from m = Some sc \<Longrightarrow> st (chainId (sc_signer sc)) = st p \<Longrightarrow>
     VerifySig cr st p m = (Inr (BytesToAddress (sc_from sc)), m, 0)"
  by (simp add: VerifySig_def Let_def NewEIP155Signer_def signer_Equal_def)

lemma VerifySig_miss:
  "msg_from m = None \<or> (\<exists>sc. msg_from m = Some sc \<and> st (chainId (sc_signer sc)) \<noteq> st p) \<Longrightarrow>
     VerifySig cr st p m =
       (if st p = 0 then (Inl InvalidChainId, m, 0)
        else case recoverEthSig cr (SetBytes (R (Data m))) (SetBytes (S (Data m)))
                    (SetBytes (V (Data m)) - st p * 2 - 8) (RLPSignBytes cr m (st p)) of
               (Inl err, n) \<Rightarrow> (Inl err, m, n)
             | (Inr sender, n) \<Rightarrow>
                 (Inr sender,
                  m\<lparr>msg_from := Some \<lparr>sc_signer = \<lparr>chainId = p, chainIdMul = st p * 2\<rparr>,
                                       sc_from = sender\<rparr>\<rparr>, n))"
  by (auto simp: VerifySig_def Let_def NewEIP155Signer_def signer_Equal_def Sign_big_eq_0)

lemma RLPSignBytes_msg_from: "RLPSignBytes cr (m\<lparr>msg_from := x\<rparr>) c = RLPSignBytes cr m c"
  by (simp add: RLPSignBytes_def)

text \<open>
  With chain id 0 and a cache that is empty, or whose signer does not refer to a zero chain
  id at the time of the call, \<^verbatim>\<open>VerifySig\<close> returns the error "chainID cannot be zero".
\<close>

lemma VerifySig_zero:
  assumes "st p = 0"
    and "msg_from m = None \<or> (\<exists>sc. msg_from m = Some sc \<and> st (chainId (sc_signer sc)) \<noteq> 0)"
  shows "VerifySig cr st p m = (Inl InvalidChainId, m, 0)"
proof -
  have "msg_from m = None \<or> (\<exists>sc. msg_from m = Some sc \<and> st (chainId (sc_signer sc)) \<noteq> st p)"
    using assms by simp
  from VerifySig_miss [OF this, of cr] assms(1) show ?thesis by simp
qed

lemma VerifySig_success_cache:
  assumes "VerifySig cr st p m = (Inr a, m', n)"
  shows "\<exists>sc. msg_from m' = Some sc \<and> st (chainId (sc_signer sc)) = st p \<and>
           BytesToAddress (sc_from sc) = a"
proof (cases "\<exists>sc. msg_from m = Some sc \<and> st (chainId (sc_signer sc)) = st p")
  case True
  then obtain sc where sc: "msg_from m = Some sc" "st (chainId (sc_signer sc)) = st p" by blast
  from VerifySig_hit [OF sc, of cr] assms sc show ?thesis by auto
next
  case False
  then have miss:
    "msg_from m = None \<or> (\<exists>sc. msg_from m = Some sc \<and> st (chainId (sc_signer sc)) \<noteq> st p)"
    by (cases "msg_from m") auto
  let ?rec = "recoverEthSig cr (SetBytes (R (Data m))) (SetBytes (S (Data m)))
                  (SetBytes (V (Data m)) - st p * 2 - 8) (RLPSignBytes cr m (st p))"
  from VerifySig_miss [OF miss, of cr] assms
  have r: "?rec = (Inr a, n)"
    and m': "m' = m\<lparr>msg_from := Some \<lparr>sc_signer = \<lparr>chainId = p, chainIdMul = st p * 2\<rparr>,
                                        sc_from = a\<rparr>\<rparr>"
    by (auto split: if_splits prod.splits sum.splits)
  have "length a = 20" using recoverEthSig_length [OF r] by simp
  then have "BytesToAddress a = a" by (rule BytesToAddress_20)
  then show ?thesis using m' by simp
qed

text \<open>
  A successful call on an empty cache made one recovery and left a cache entry whose signer
  holds the pointer \<open>p\<close> of the caller.
\<close>

lemma VerifySig_first_call:
  assumes "msg_from m = None" and "VerifySig cr st p m = (Inr a, m', n)"
  shows "n = 1 \<and> length a = 20 \<and>
         m' = m\<lparr>msg_from := Some \<lparr>sc_signer = \<lparr>chainId = p, chainIdMul = st p * 2\<rparr>,
                                  sc_from = a\<rparr>\<rparr>"
proof -
  have miss:
    "msg_from m = None \<or> (\<exists>sc. msg_from m = Some sc \<and> st (chainId (sc_signer sc)) \<noteq> st p)"
    using assms(1) by simp
  let ?rec = "recoverEthSig cr (SetBytes (R (Data m))) (SetBytes (S (Data m)))
                  (SetBytes (V (Data m)) - st p * 2 - 8) (RLPSignBytes cr m (st p))"
  from VerifySig_miss [OF miss, of cr] assms(2)
  have r: "?rec = (Inr a, n)"
    and m': "m' = m\<lparr>msg_from := Some \<lparr>sc_signer = \<lparr>chainId = p, chainIdMul = st p * 2\<rparr>,
                                        sc_from = a\<rparr>\<rparr>"
    by (auto split: if_splits prod.splits sum.splits)
  from recoverEthSig_length [OF r] m' show ?thesis by simp
qed

lemma secp256k1N_lt: "secp256k1N < 2 ^ 256"
  by (simp add: secp256k1N_def)

lemma Validate_bounds:
  "ValidateSignatureValues v r s True \<Longrightarrow>
     1 \<le> r \<and> r < 2 ^ 256 \<and> 1 \<le> s \<and> s < 2 ^ 256 \<and> s \<le> secp256k1halfN \<and> (v = 0 \<or> v = 1)"
  using secp256k1N_lt by (auto simp: ValidateSignatureValues_def split: if_splits)

lemma length_Bytes_le_32: "0 \<le> x \<Longrightarrow> x < 2 ^ 256 \<Longrightarrow> length (Bytes x) \<le> 32"
proof -
  assume a: "0 \<le> x" "x < 2 ^ 256"
  have "nat \<bar>x\<bar> < 2 ^ 256" using a by (simp add: nat_less_iff)
  also have "(2::nat) ^ 256 = 256 ^ 32" by simp
  finally show ?thesis by (simp add: Bytes_def length_nat_bytes_le)
qed

lemma recoverEthSig_no_panic:
  "fst (recoverEthSig cr r s v h) \<noteq> Inl (Panic p)"
proof (cases "ValidateSignatureValues (ucast (Uint64 v - 27)) r s True")
  case True
  from Validate_bounds [OF True] have "length (Bytes r) \<le> 32" "length (Bytes s) \<le> 32"
    by (simp_all add: length_Bytes_le_32)
  then show ?thesis
    by (auto simp: recoverEthSig_def Let_def split: option.splits)
next
  case False
  then show ?thesis by (simp add: recoverEthSig_def Let_def)
qed

lemma SetBytes_nonneg: "0 \<le> SetBytes b"
  by (simp add: SetBytes_def)

lemma Bytes_SetBytes_pad32:
  "length x = 32 \<Longrightarrow> replicate (32 - length (Bytes (SetBytes x))) 0 @ Bytes (SetBytes x) = x"
  using pad_Bytes_SetBytes [of x] by simp

lemma sig_split:
  assumes "length sig = 65"
  shows "take 32 sig @ take 32 (drop 32 sig) @ [sig ! 64] = sig"
proof -
  have "drop 64 sig = [sig ! 64]"
    using assms Cons_nth_drop_Suc [of 64 sig] by simp
  then have "take 32 (drop 32 sig) @ [sig ! 64] = drop 32 sig"
    using append_take_drop_id [of 32 "drop 32 sig"] by simp
  then show ?thesis using append_take_drop_id [of 32 sig] by simp
qed

lemma RLPSignBytes_signature_fields:
  "RLPSignBytes cr (m\<lparr>Data := (Data m)\<lparr>V := v, R := r, S := s\<rparr>\<rparr>) c = RLPSignBytes cr m c"
  by (simp add: RLPSignBytes_def sign_payload_def)

lemma recovered_address:
  "copy_into (replicate 20 0) (drop 12 (hash_bytes h)) = BytesToAddress (drop 12 (hash_bytes h))"
  by (simp add: copy_into_same_length BytesToAddress_20 length_hash_bytes)

lemma recid_byte:
  assumes "b = 0 \<or> b = (1::byte)"
  shows "BitLen (uint (b + 35) - 8) \<le> 8" and "(ucast (Uint64 (uint (b + 35) - 8) - 27) :: byte) = b"
  using assms by (auto simp: BitLen_le_iff Uint64_word_of_int)

lemma recoverEthSig_of_signature:
  assumes len: "length sig = 65"
    and recid: "sig ! 64 = 0 \<or> sig ! 64 = 1"
    and val: "ValidateSignatureValues (sig ! 64) (SetBytes (take 32 sig))
                (SetBytes (take 32 (drop 32 sig))) True"
    and rec: "Ecrecover cr (hash_bytes h) sig = Some pub"
    and pub: "length pub = 65" "hd pub = 4"
  shows "recoverEthSig cr (SetBytes (take 32 sig)) (SetBytes (take 32 (drop 32 sig)))
           (uint (sig ! 64 + 35) - 8) h =
         (Inr (BytesToAddress (drop 12 (hash_bytes (Keccak256 cr (drop 1 pub))))), 1)"
proof -
  let ?r = "SetBytes (take 32 sig)" and ?s = "SetBytes (take 32 (drop 32 sig))"
  have lr: "length (Bytes ?r) \<le> 32" and ls: "length (Bytes ?s) \<le> 32"
    using Validate_bounds [OF val] by (simp_all add: length_Bytes_le_32)
  have l1: "length (take 32 sig) = 32" and l2: "length (take 32 (drop 32 sig)) = 32"
    using len by simp_all
  have "replicate (32 - length (Bytes ?r)) 0 @ Bytes ?r @
          replicate (32 - length (Bytes ?s)) 0 @ Bytes ?s @ [sig ! 64] =
        (replicate (32 - length (Bytes ?r)) 0 @ Bytes ?r) @
          (replicate (32 - length (Bytes ?s)) 0 @ Bytes ?s) @ [sig ! 64]"
    by simp
  also have "\<dots> = take 32 sig @ take 32 (drop 32 sig) @ [sig ! 64]"
    by (simp only: Bytes_SetBytes_pad32 [OF l1] Bytes_SetBytes_pad32 [OF l2])
  also have "\<dots> = sig" by (rule sig_split [OF len])
  finally have sig: "replicate (32 - length (Bytes ?r)) 0 @ Bytes ?r @
          replicate (32 - length (Bytes ?s)) 0 @ Bytes ?s @ [sig ! 64] = sig" .
  have pne: "pub \<noteq> []" using pub by auto
  show ?thesis
    unfolding recoverEthSig_def Let_def
    using recid_byte [OF recid] val lr ls rec pub pne
    by (simp add: sig recovered_address)
qed

lemma newMsgEthereumTx_msg_from:
  "newMsgEthereumTx nonce to amount gasLimit gasPrice payload = Inr m \<Longrightarrow> msg_from m = None"
  by (auto simp: newMsgEthereumTx_def Let_def split: option.splits)

lemma Sign_then_VerifySig:
  assumes fresh: "msg_from msg = None"
    and c: "0 < st p"
    and key: "valid_keypair cr priv (hash_bytes (RLPSignBytes cr msg (st p)))"
  shows "\<exists>msg'. Sign cr (st p) priv msg = Inr msg' \<and>
           fst (VerifySig cr st p msg') = Inr (PubkeyToAddress cr priv)"
proof -
  let ?h = "RLPSignBytes cr msg (st p)"
  from key obtain sig where sg: "ecdsa_Sign cr (hash_bytes ?h) priv = Some sig"
    and len: "length sig = 65" and recid: "sig ! 64 = 0 \<or> sig ! 64 = 1"
    and val: "ValidateSignatureValues (sig ! 64) (SetBytes (take 32 sig))
                (SetBytes (take 32 (drop 32 sig))) True"
    and rec: "Ecrecover cr (hash_bytes ?h) sig = Some (FromECDSAPub cr priv)"
    and pub: "length (FromECDSAPub cr priv) = 65" "hd (FromECDSAPub cr priv) = 4"
    by (auto simp: valid_keypair_def split: option.splits)
  let ?v = "uint (sig ! 64 + 35) + st p * 2"
  let ?r = "SetBytes (take 32 sig)" and ?s = "SetBytes (take 32 (drop 32 sig))"
  let ?m = "msg\<lparr>Data := (Data msg)\<lparr>V := Bytes ?v, R := Bytes ?r, S := Bytes ?s\<rparr>\<rparr>"
  have s: "Sign cr (st p) priv msg = Inr ?m"
    using Sign_result [OF sg len] c by simp
  have miss: "msg_from ?m = None \<or>
      (\<exists>sc. msg_from ?m = Some sc \<and> st (chainId (sc_signer sc)) \<noteq> st p)"
    using fresh by simp
  have vnn: "0 \<le> ?v" using c by simp
  have V: "SetBytes (V (Data ?m)) - st p * 2 - 8 = uint (sig ! 64 + 35) - 8"
    using vnn by (simp add: SetBytes_Bytes)
  have R: "SetBytes (R (Data ?m)) = ?r" and S: "SetBytes (S (Data ?m)) = ?s"
    by (simp_all add: SetBytes_Bytes SetBytes_nonneg)
  have h: "RLPSignBytes cr ?m (st p) = ?h" by (rule RLPSignBytes_signature_fields)
  have "fst (VerifySig cr st p ?m) = Inr (PubkeyToAddress cr priv)"
    using c
    by (simp only: VerifySig_miss [OF miss] V R S h
          recoverEthSig_of_signature [OF len recid val rec pub])
       (simp add: PubkeyToAddress_def)
  with s show ?thesis by blast
qed

text \<open>
  C1: for a transaction built by \<^verbatim>\<open>NewMsgEthereumTx\<close> from its six fields, a chain id
  above 0 (the integer \<open>st chainID\<close> behind the caller's pointer) and a valid key pair,
  \<^verbatim>\<open>Sign\<close> succeeds and \<^verbatim>\<open>VerifySig\<close> for the same chain id then returns the
  20-byte address of the key pair's public key.
\<close>

theorem Sign_VerifySig_inverse:
  assumes "NewMsgEthereumTx nonce to amount gasLimit gasPrice payload = Inr msg"
    and "0 < st chainID"
    and "valid_keypair cr priv (hash_bytes (RLPSignBytes cr msg (st chainID)))"
  shows "\<exists>msg'. Sign cr (st chainID) priv msg = Inr msg' \<and>
           fst (VerifySig cr st chainID msg') = Inr (PubkeyToAddress cr priv) \<and>
           length (PubkeyToAddress cr priv) = 20"
proof -
  have "msg_from msg = None"
    using assms(1) by (simp add: NewMsgEthereumTx_def newMsgEthereumTx_msg_from)
  from Sign_then_VerifySig [where st = st and p = chainID, OF this assms(2) assms(3)]
  show ?thesis by (auto simp: PubkeyToAddress_def length_BytesToAddress)
qed

theorem Sign_VerifySig_inverse_witness:
  "\<exists>msg'. Sign demo_crypto 1 () demo_tx = Inr msg' \<and>
      fst (VerifySig demo_crypto (\<lambda>p. 1) 0 msg') = Inr (PubkeyToAddress demo_crypto ())"
proof -
  have 1: "NewMsgEthereumTx 0 (Some (replicate 20 0)) (Some 0) 21000 (Some 1) [] = Inr demo_tx"
    by (rule demo_tx_constructed)
  have 2: "(0::int) < (\<lambda>p::ptr. 1) 0" by simp
  have 3: "valid_keypair demo_crypto ()
             (hash_bytes (RLPSignBytes demo_crypto demo_tx ((\<lambda>p::ptr. 1) 0)))"
    by (rule demo_valid_keypair)
  show ?thesis
    using Sign_VerifySig_inverse [where st = "\<lambda>p. 1" and chainID = 0, OF 1 2 3] by auto
qed

text \<open>
  \<^verbatim>\<open>Sign\<close> leaves the sender cache as it is: once a transaction has been verified for
  a chain id, signing it again for that chain id does not change what \<^verbatim>\<open>VerifySig\<close>
  returns.
\<close>

lemma Sign_keeps_cache:
  assumes "msg_from m = Some sc" and "st (chainId (sc_signer sc)) = st p"
    and "Sign cr c priv m = Inr m'"
  shows "VerifySig cr st p m' = (Inr (BytesToAddress (sc_from sc)), m', 0)"
proof -
  have "msg_from m' = Some sc" using Sign_msg_from [OF assms(3)] assms(1) by simp
  then show ?thesis using assms(2) by (rule VerifySig_hit)
qed

lemma demo_signed_verified:
  "\<exists>m1 m2. Sign demo_crypto 1 () demo_tx = Inr m1 \<and> msg_from m1 = None \<and>
     SetBytes (V (Data m1)) = 37 \<and> SetBytes (S (Data m1)) = 1 \<and> SetBytes (R (Data m1)) = 1 \<and>
     Data m2 = Data m1 \<and>
     VerifySig demo_crypto (\<lambda>p. 1) 0 m1 = (Inr (PubkeyToAddress demo_crypto ()), m2, 1)"
proof -
  have fresh: "msg_from demo_tx = None" by (simp add: demo_tx_def)
  have sg: "ecdsa_Sign demo_crypto (hash_bytes (RLPSignBytes demo_crypto demo_tx 1)) ()
              = Some demo_sig"
    by (simp add: demo_crypto_def)
  let ?m1 = "demo_tx\<lparr>Data := (Data demo_tx)
                  \<lparr>V := Bytes (if (1::int) = 0 then uint (demo_sig ! 64 + 27)
                               else uint (demo_sig ! 64 + 35) + 1 * 2),
                   R := Bytes (SetBytes (take 32 demo_sig)),
                   S := Bytes (SetBytes (take 32 (drop 32 demo_sig)))\<rparr>\<rparr>"
  have s: "Sign demo_crypto 1 () demo_tx = Inr ?m1"
    by (rule Sign_result [OF sg demo_sig_facts(1)])
  have f1: "msg_from ?m1 = None" using fresh by simp
  have d: "SetBytes (V (Data ?m1)) = 37" "SetBytes (S (Data ?m1)) = 1"
    "SetBytes (R (Data ?m1)) = 1"
    by (simp_all add: demo_sig_facts SetBytes_Bytes)
  from Sign_then_VerifySig [where st = "\<lambda>p. 1" and p = 0, OF fresh _ demo_valid_keypair] s
  have v: "fst (VerifySig demo_crypto (\<lambda>p. 1) 0 ?m1) = Inr (PubkeyToAddress demo_crypto ())"
    by simp
  obtain m2 n where t: "VerifySig demo_crypto (\<lambda>p. 1) 0 ?m1 =
      (Inr (PubkeyToAddress demo_crypto ()), m2, n)"
    using v by (cases "VerifySig demo_crypto (\<lambda>p. 1) 0 ?m1") auto
  from VerifySig_first_call [OF f1 t] have "n = 1" "Data m2 = Data ?m1" by simp_all
  with s f1 d t show ?thesis by blast
qed

lemma BitLen_27: "BitLen (- 27) \<le> 8"
  by (simp add: BitLen_le_iff)

lemma Bytes_1: "Bytes 1 = [1]"
  by (simp add: Bytes_def nat_bytes.simps)

lemma recoverEthSig_minus_27:
  assumes "ValidateSignatureValues 0 r s True"
  shows "fst (recoverEthSig cr r s (- 27) h) \<noteq> Inl InvalidSignature"
proof -
  have u: "(ucast (Uint64 (- 27) - 27) :: byte) = 0" by (simp add: Uint64_word_of_int)
  show ?thesis
    unfolding recoverEthSig_def Let_def
    using BitLen_27 assms by (simp add: u split: option.splits)
qed

lemma neg_tx_recover:
  "recoverEthSig cr 1 1 (- 27) h =
     (case Ecrecover cr (hash_bytes h) (replicate 31 0 @ [1] @ replicate 31 0 @ [1] @ [0]) of
        None \<Rightarrow> (Inl EcrecoverError, 1)
      | Some pub \<Rightarrow>
          if length pub = 0 \<or> hd pub \<noteq> 4 then (Inl InvalidPublicKey, 1)
          else (Inr (copy_into (replicate 20 0)
                  (drop 12 (hash_bytes (Keccak256 cr (drop 1 pub))))), 1))"
proof -
  have u: "(ucast (Uint64 (- 27) - 27) :: byte) = 0" by (simp add: Uint64_word_of_int)
  show ?thesis
    unfolding recoverEthSig_def Let_def
    using BitLen_27 Validate_1_1 by (simp add: u Bytes_1)
qed

lemma neg_tx_VerifySig:
  "VerifySig cr (st(p := 10)) p neg_tx =
     (case recoverEthSig cr 1 1 (- 27) (RLPSignBytes cr neg_tx 10) of
        (Inl err, n) \<Rightarrow> (Inl err, neg_tx, n)
      | (Inr sender, n) \<Rightarrow>
          (Inr sender,
           neg_tx\<lparr>msg_from := Some \<lparr>sc_signer = \<lparr>chainId = p, chainIdMul = 20\<rparr>,
                                    sc_from = sender\<rparr>\<rparr>, n))"
proof -
  have miss: "msg_from neg_tx = None \<or>
      (\<exists>sc. msg_from neg_tx = Some sc \<and>
            (st(p := 10)) (chainId (sc_signer sc)) \<noteq> (st(p := 10)) p)"
    by (simp add: neg_tx_def demo_tx_def)
  have d: "SetBytes (R (Data neg_tx)) = 1" "SetBytes (S (Data neg_tx)) = 1"
    "SetBytes (V (Data neg_tx)) - (st(p := 10)) p * 2 - 8 = - 27"
    by (simp_all add: neg_tx_def SetBytes_single)
  show ?thesis
    by (simp only: VerifySig_miss [OF miss] d) (auto split: prod.splits sum.splits)
qed

text \<open>
  C6: \<^verbatim>\<open>recoverEthSig\<close> tests the bit length of \<open>V - 2 * chainID - 8\<close>, which is that
  of its absolute value, and \<^verbatim>\<open>Uint64\<close> drops the sign: the value \<open>-27\<close> does not fit in
  a byte, yet it passes as recovery id 0.  Whatever the primitives return, the result for
  \<open>neg_tx\<close> and chain id 10 is not the error "invalid signature"; with the primitives of
  the concrete instance it is an address.
\<close>

theorem VerifySig_accepts_negative_recovery_value:
  "SetBytes (V (Data neg_tx)) - 2 * 10 - 8 = - 27 \<and>
   fst (VerifySig cr (st(p := 10)) p neg_tx) \<noteq> Inl InvalidSignature \<and>
   fst (VerifySig demo_crypto (st(p := 10)) p neg_tx) = Inr (PubkeyToAddress demo_crypto ())"
proof (intro conjI)
  show "SetBytes (V (Data neg_tx)) - 2 * 10 - 8 = - 27"
    by (simp add: neg_tx_def SetBytes_single)
  show "fst (VerifySig cr (st(p := 10)) p neg_tx) \<noteq> Inl InvalidSignature"
    by (simp add: neg_tx_VerifySig neg_tx_recover split: option.splits)
  have "Ecrecover demo_crypto x y = Some demo_pub" for x y by (simp add: demo_crypto_def)
  then show "fst (VerifySig demo_crypto (st(p := 10)) p neg_tx) =
      Inr (PubkeyToAddress demo_crypto ())"
    by (simp add: neg_tx_VerifySig neg_tx_recover recovered_address PubkeyToAddress_def)
       (simp add: demo_crypto_def demo_pub_def)
qed

text \<open>
  The same for a signed transaction: a signature with recovery id 0 for a chain id
  \<open>c\<close> gives \<open>-27\<close> for the chain id \<open>c + 27\<close>, so it is not refused as an invalid
  signature there.
\<close>

lemma VerifySig_other_chain_not_rejected:
  assumes fresh: "msg_from msg = None"
    and c: "0 < chainID"
    and key: "valid_keypair cr priv (hash_bytes (RLPSignBytes cr msg chainID))"
    and s: "Sign cr chainID priv msg = Inr msg'"
    and v: "SetBytes (V (Data msg')) = 35 + 2 * chainID"
    and q: "st q = chainID + 27"
  shows "SetBytes (V (Data msg')) - 2 * st q - 8 = - 27 \<and>
         fst (VerifySig cr st q msg') \<noteq> Inl InvalidSignature"
proof -
  let ?h = "RLPSignBytes cr msg chainID"
  from key obtain sig where sg: "ecdsa_Sign cr (hash_bytes ?h) priv = Some sig"
    and len: "length sig = 65" and recid: "sig ! 64 = 0 \<or> sig ! 64 = 1"
    and val: "ValidateSignatureValues (sig ! 64) (SetBytes (take 32 sig))
                (SetBytes (take 32 (drop 32 sig))) True"
    by (auto simp: valid_keypair_def split: option.splits)
  let ?r = "SetBytes (take 32 sig)" and ?s = "SetBytes (take 32 (drop 32 sig))"
  have m': "msg' = msg\<lparr>Data := (Data msg)
                  \<lparr>V := Bytes (if chainID = 0 then uint (sig ! 64 + 27)
                               else uint (sig ! 64 + 35) + chainID * 2),
                   R := Bytes ?r, S := Bytes ?s\<rparr>\<rparr>"
    using Sign_result [OF sg len] s by simp
  have val0: "ValidateSignatureValues 0 ?r ?s True"
    using val by (auto simp: ValidateSignatureValues_def split: if_splits)
  have miss: "msg_from msg' = None \<or>
      (\<exists>sc. msg_from msg' = Some sc \<and> st (chainId (sc_signer sc)) \<noteq> st q)"
    using fresh Sign_msg_from [OF s] by simp
  have R: "SetBytes (R (Data msg')) = ?r" and S: "SetBytes (S (Data msg')) = ?s"
    by (simp_all add: m' SetBytes_Bytes SetBytes_nonneg)
  have V: "SetBytes (V (Data msg')) - st q * 2 - 8 = - 27" using v q by simp
  have nz: "st q \<noteq> 0" using c q by simp
  have "fst (VerifySig cr st q msg') \<noteq> Inl InvalidSignature"
    using nz recoverEthSig_minus_27 [OF val0, of cr "RLPSignBytes cr msg' (st q)"]
    by (simp only: VerifySig_miss [OF miss] R S V) (auto split: prod.splits sum.splits)
  then show ?thesis using v q by simp
qed

text \<open>
  What \<^verbatim>\<open>VerifySig\<close> does refuse as an invalid signature when the cache does not
  answer and the chain id is not zero: a value \<open>V - 2 * chainID - 8\<close> of absolute value 256
  or more, values that fail \<^verbatim>\<open>ValidateSignatureValues\<close>, and an \<open>S\<close> above half the
  group order.
\<close>

lemma VerifySig_rejects:
  assumes "msg_from m = None \<or>
           (\<exists>sc. msg_from m = Some sc \<and> st (chainId (sc_signer sc)) \<noteq> st p)"
    and "st p \<noteq> 0"
    and "2 ^ 8 \<le> \<bar>SetBytes (V (Data m)) - 2 * st p - 8\<bar> \<or>
         \<not> ValidateSignatureValues (ucast (Uint64 (SetBytes (V (Data m)) - 2 * st p - 8) - 27))
             (SetBytes (R (Data m))) (SetBytes (S (Data m))) True \<or>
         secp256k1halfN < SetBytes (S (Data m))"
  shows "VerifySig cr st p m = (Inl InvalidSignature, m, 0)"
proof -
  let ?V = "SetBytes (V (Data m)) - st p * 2 - 8"
  have "recoverEthSig cr (SetBytes (R (Data m))) (SetBytes (S (Data m))) ?V
          (RLPSignBytes cr m (st p)) = (Inl InvalidSignature, 0)"
  proof (cases "BitLen ?V > 8")
    case True
    then show ?thesis by (simp add: recoverEthSig_def)
  next
    case False
    then have "\<bar>?V\<bar> < 2 ^ 8" by (simp add: BitLen_le_iff not_less)
    with assms(3) have "\<not> ValidateSignatureValues (ucast (Uint64 ?V - 27))
             (SetBytes (R (Data m))) (SetBytes (S (Data m))) True"
      by (auto simp: ValidateSignatureValues_def mult.commute)
    with False show ?thesis by (simp add: recoverEthSig_def Let_def)
  qed
  then show ?thesis using assms(2) by (simp add: VerifySig_miss [OF assms(1)])
qed

text \<open>
  The cached signer refers to the caller's chain id: whatever integer the caller writes to
  it after the first call, a second call with the same pointer finds the signers equal and
  returns the cached address without a recovery.
\<close>

lemma VerifySig_aliased_hit:
  assumes "msg_from m = None" and "VerifySig cr st p m = (Inr a, m', n)"
  shows "VerifySig cr (big_SetInt64 st p k) p m' = (Inr a, m', 0)"
proof -
  from VerifySig_first_call [OF assms]
  have la: "length a = 20"
    and m': "msg_from m' = Some \<lparr>sc_signer = \<lparr>chainId = p, chainIdMul = st p * 2\<rparr>, sc_from = a\<rparr>"
    by simp_all
  have "VerifySig cr (big_SetInt64 st p k) p m' =
          (Inr (BytesToAddress (sc_from \<lparr>sc_signer = \<lparr>chainId = p, chainIdMul = st p * 2\<rparr>,
                                 sc_from = a\<rparr>)), m', 0)"
    by (rule VerifySig_hit [OF m']) simp
  then show ?thesis using la by (simp add: BytesToAddress_20)
qed

text \<open>
  With a cache whose signer refers, at the time of the call, to a chain id other than the
  one passed, the cache is not used: the result and the number of recoveries are those of
  the transaction without a cache.
\<close>

lemma VerifySig_recomputes:
  assumes "msg_from m = Some sc" and "st (chainId (sc_signer sc)) \<noteq> st p"
  shows "fst (VerifySig cr st p m) = fst (VerifySig cr st p (m\<lparr>msg_from := None\<rparr>)) \<and>
         snd (snd (VerifySig cr st p m)) = snd (snd (VerifySig cr st p (m\<lparr>msg_from := None\<rparr>)))"
proof -
  have miss:
    "msg_from m = None \<or> (\<exists>sc. msg_from m = Some sc \<and> st (chainId (sc_signer sc)) \<noteq> st p)"
    using assms by blast
  have miss': "msg_from (m\<lparr>msg_from := None\<rparr>) = None \<or>
      (\<exists>sc. msg_from (m\<lparr>msg_from := None\<rparr>) = Some sc \<and> st (chainId (sc_signer sc)) \<noteq> st p)"
    by simp
  show ?thesis
    by (simp only: VerifySig_miss [OF miss] VerifySig_miss [OF miss'])
       (auto simp: RLPSignBytes_msg_from split: prod.splits sum.splits)
qed

text \<open>
  C5: \<^verbatim>\<open>VerifySig\<close> looks in the cache before it tests the chain id, and the cached
  signer refers to the caller's chain id.  After a successful call on an empty cache, the
  caller sets that chain id to 0 and calls again with it: the signers are equal, and the
  result is the cached address, not the error "chainID cannot be zero".
\<close>

theorem VerifySig_zero_chain_id_returns_cached:
  assumes "msg_from m = None" and "VerifySig cr st p m = (Inr a, m', n)"
  shows "big_SetInt64 st p 0 p = 0 \<and>
         VerifySig cr (big_SetInt64 st p 0) p m' = (Inr a, m', 0)"
  using VerifySig_aliased_hit [OF assms, of 0] by (simp add: big_SetInt64_def)

theorem VerifySig_zero_chain_id_returns_cached_witness:
  "\<exists>m1 m2. Sign demo_crypto 1 () demo_tx = Inr m1 \<and>
     VerifySig demo_crypto (\<lambda>p. 1) 0 m1 = (Inr (PubkeyToAddress demo_crypto ()), m2, 1) \<and>
     big_SetInt64 (\<lambda>p. 1) 0 0 0 = 0 \<and>
     VerifySig demo_crypto (big_SetInt64 (\<lambda>p. 1) 0 0) 0 m2 =
       (Inr (PubkeyToAddress demo_crypto ()), m2, 0) \<and>
     VerifySig demo_crypto (big_SetInt64 (\<lambda>p. 1) 0 0) 0 m1 = (Inl InvalidChainId, m1, 0)"
proof -
  from demo_signed_verified obtain m1 m2 where
    s: "Sign demo_crypto 1 () demo_tx = Inr m1" and f: "msg_from m1 = None"
    and t: "VerifySig demo_crypto (\<lambda>p. 1) 0 m1 = (Inr (PubkeyToAddress demo_crypto ()), m2, 1)"
    by blast
  note b = VerifySig_zero_chain_id_returns_cached [OF f t]
  have z: "VerifySig demo_crypto (big_SetInt64 (\<lambda>p. 1) 0 0) 0 m1 = (Inl InvalidChainId, m1, 0)"
    by (rule VerifySig_zero) (simp_all add: big_SetInt64_def f)
  from s t b z show ?thesis by blast
qed

text \<open>
  C9: a successful \<^verbatim>\<open>VerifySig\<close> on an empty cache makes one recovery and leaves a
  cache from which a second call with the same chain id returns the same address without a
  recovery.  The cached signer refers to the caller's chain id, so the same happens after
  the caller has set that chain id to any other value \<open>k\<close>: the call for the chain id
  \<open>k\<close> returns the address cached for the old one and makes no recovery, although the
  comment in the code says that the cache is invalidated for another signer.
\<close>

theorem VerifySig_cache_stale_after_SetInt64:
  assumes "msg_from m = None" and "VerifySig cr st p m = (Inr a, m', n)"
  shows "n = 1 \<and> VerifySig cr st p m' = (Inr a, m', 0) \<and>
         big_SetInt64 st p k p = k \<and>
         VerifySig cr (big_SetInt64 st p k) p m' = (Inr a, m', 0)"
proof -
  have "n = 1" using VerifySig_first_call [OF assms] by simp
  moreover have "VerifySig cr (big_SetInt64 st p (st p)) p m' = (Inr a, m', 0)"
    by (rule VerifySig_aliased_hit [OF assms])
  then have "VerifySig cr st p m' = (Inr a, m', 0)" by (simp add: big_SetInt64_def)
  moreover have "VerifySig cr (big_SetInt64 st p k) p m' = (Inr a, m', 0)"
    by (rule VerifySig_aliased_hit [OF assms])
  ultimately show ?thesis by (simp add: big_SetInt64_def)
qed

theorem VerifySig_cache_stale_after_SetInt64_witness:
  "\<exists>m1 m2. Sign demo_crypto 1 () demo_tx = Inr m1 \<and>
     VerifySig demo_crypto (\<lambda>p. 1) 0 m1 = (Inr (PubkeyToAddress demo_crypto ()), m2, 1) \<and>
     VerifySig demo_crypto (\<lambda>p. 1) 0 m2 = (Inr (PubkeyToAddress demo_crypto ()), m2, 0) \<and>
     big_SetInt64 (\<lambda>p. 1) 0 5 0 = 5 \<and>
     VerifySig demo_crypto (big_SetInt64 (\<lambda>p. 1) 0 5) 0 m2 =
       (Inr (PubkeyToAddress demo_crypto ()), m2, 0) \<and>
     VerifySig demo_crypto (big_SetInt64 (\<lambda>p. 1) 0 5) 0 (m2\<lparr>msg_from := None\<rparr>) =
       (Inl InvalidSignature, m2\<lparr>msg_from := None\<rparr>, 0)"
proof -
  from demo_signed_verified obtain m1 m2 where
    s: "Sign demo_crypto 1 () demo_tx = Inr m1" and f: "msg_from m1 = None"
    and d: "SetBytes (V (Data m1)) = 37" "SetBytes (S (Data m1)) = 1"
      "SetBytes (R (Data m1)) = 1" "Data m2 = Data m1"
    and t: "VerifySig demo_crypto (\<lambda>p. 1) 0 m1 = (Inr (PubkeyToAddress demo_crypto ()), m2, 1)"
    by blast
  note b = VerifySig_cache_stale_after_SetInt64 [OF f t, of 5]
  have "VerifySig demo_crypto (big_SetInt64 (\<lambda>p. 1) 0 5) 0 (m2\<lparr>msg_from := None\<rparr>) =
      (Inl InvalidSignature, m2\<lparr>msg_from := None\<rparr>, 0)"
  proof (rule VerifySig_rejects)
    show "msg_from (m2\<lparr>msg_from := None\<rparr>) = None \<or>
        (\<exists>sc. msg_from (m2\<lparr>msg_from := None\<rparr>) = Some sc \<and>
              big_SetInt64 (\<lambda>p. 1) 0 5 (chainId (sc_signer sc)) \<noteq> big_SetInt64 (\<lambda>p. 1) 0 5 0)"
      by simp
    show "big_SetInt64 (\<lambda>p. 1) 0 5 0 \<noteq> 0" by (simp add: big_SetInt64_def)
    have "(ucast (Uint64 19 - 27) :: byte) = 248" by (simp add: Uint64_word_of_int)
    then have "\<not> ValidateSignatureValues
        (ucast (Uint64 (SetBytes (V (Data (m2\<lparr>msg_from := None\<rparr>))) -
                        2 * big_SetInt64 (\<lambda>p. 1) 0 5 0 - 8) - 27))
        (SetBytes (R (Data (m2\<lparr>msg_from := None\<rparr>))))
        (SetBytes (S (Data (m2\<lparr>msg_from := None\<rparr>)))) True"
      using d by (simp add: big_SetInt64_def ValidateSignatureValues_def)
    then show "2 ^ 8 \<le> \<bar>SetBytes (V (Data (m2\<lparr>msg_from := None\<rparr>))) -
                      2 * big_SetInt64 (\<lambda>p. 1) 0 5 0 - 8\<bar> \<or>
        \<not> ValidateSignatureValues
            (ucast (Uint64 (SetBytes (V (Data (m2\<lparr>msg_from := None\<rparr>))) -
                            2 * big_SetInt64 (\<lambda>p. 1) 0 5 0 - 8) - 27))
            (SetBytes (R (Data (m2\<lparr>msg_from := None\<rparr>))))
            (SetBytes (S (Data (m2\<lparr>msg_from := None\<rparr>)))) True \<or>
        secp256k1halfN < SetBytes (S (Data (m2\<lparr>msg_from := None\<rparr>)))"
      by blast
  qed
  with s t b show ?thesis by blast
qed

subsection \<open>The signing payload\<close>

lemma writeBytes_Nil: "writeBytes [] = [0x80]"
  by (simp add: writeBytes_def encodeStringHeader_def)

lemma writeBigInt_nonneg: "0 \<le> x \<Longrightarrow> writeBigInt x = Some (writeBytes (Bytes x))"
  by (simp add: writeBigInt_def Bytes_def nat_bytes_0 writeBytes_Nil)

lemma writeUint_0: "writeUint 0 = [0x80]"
  by (simp add: writeUint_def)

lemma rlp_encode_sign_payload:
  assumes "0 \<le> chainID"
  shows "rlp_encode (sign_payload d chainID) =
     Some (encodeListHeader (length (sign_payload_body d chainID)) @ sign_payload_body d chainID)"
  using assms
  by (simp add: sign_payload_def sign_payload_body_def writeUint_0 writeBigInt_nonneg SetBytes_nonneg)

text \<open>
  C7: for a chain id that is not negative, \<^verbatim>\<open>RLPSignBytes\<close> is the hash of the encoding
  of the list (nonce, gasPrice, gasLimit, recipient, amount, payload, chainID, 0, 0): a list
  header followed by the nine elements in this order, the last two being \<open>0x80\<close>.  It
  depends on the data and the chain id only, not on the caches, so repeated calls agree.
\<close>

theorem RLPSignBytes_signing_payload:
  assumes "0 \<le> chainID"
  shows "rlp_encode (RList [RUint (AccountNonce (Data msg)), RBig (SetBytes (Price (Data msg))),
                            RUint (GasLimit (Data msg)),
                            RString (BytesToAddress (Recipient (Data msg))),
                            RBig (SetBytes (Amount (Data msg))), RString (Payload (Data msg)),
                            RBig chainID, RUint 0, RUint 0]) =
           Some (encodeListHeader (length (sign_payload_body (Data msg) chainID)) @
                 sign_payload_body (Data msg) chainID) \<and>
         RLPSignBytes cr msg chainID =
           Keccak256 cr (encodeListHeader (length (sign_payload_body (Data msg) chainID)) @
                         sign_payload_body (Data msg) chainID) \<and>
         (\<forall>msg'. Data msg' = Data msg \<longrightarrow>
            RLPSignBytes cr msg' chainID = RLPSignBytes cr msg chainID)"
proof -
  have e: "rlp_encode (sign_payload (Data msg) chainID) =
      Some (encodeListHeader (length (sign_payload_body (Data msg) chainID)) @
            sign_payload_body (Data msg) chainID)"
    by (rule rlp_encode_sign_payload [OF assms])
  then have "RLPSignBytes cr msg chainID =
      Keccak256 cr (encodeListHeader (length (sign_payload_body (Data msg) chainID)) @
                    sign_payload_body (Data msg) chainID)"
    by (simp add: RLPSignBytes_def rlpHash_def)
  moreover have "RLPSignBytes cr msg' chainID = RLPSignBytes cr msg chainID"
    if "Data msg' = Data msg" for msg'
    using that by (simp add: RLPSignBytes_def)
  ultimately show ?thesis using e unfolding sign_payload_def by blast
qed

lemma nat_bytes_21000: "nat_bytes 21000 = [0x52, 0x08]"
  by (simp add: nat_bytes.simps)

theorem RLPSignBytes_signing_payload_witness:
  "RLPSignBytes demo_crypto demo_tx 1 =
     Keccak256 demo_crypto
       ([0xDF, 0x80, 0x01, 0x82, 0x52, 0x08, 0x94] @ replicate 20 0 @
        [0x80, 0x80, 0x01, 0x80, 0x80]) \<and>
   RLPSignBytes demo_crypto (demo_tx\<lparr>msg_hash := 1\<rparr>) 1 = RLPSignBytes demo_crypto demo_tx 1"
proof -
  have p1: "Bytes (SetBytes [1]) = [1]" by (simp add: SetBytes_single Bytes_1)
  have p2: "Bytes (SetBytes []) = []" by (simp add: SetBytes_def be_nat_Nil Bytes_def nat_bytes_0)
  note p = p1 p2 Bytes_1
  have w1: "writeBytes [1] = [1]" by (simp add: writeBytes_def)
  have g: "writeUint 21000 = [0x82, 0x52, 0x08]"
    by (simp add: writeUint_def nat_bytes_21000)
  have a: "writeBytes (BytesToAddress (replicate 20 0)) = 0x94 # replicate 20 0"
    by (simp add: BytesToAddress_20 writeBytes_def encodeStringHeader_def)
  have b: "sign_payload_body (Data demo_tx) 1 =
      [0x80, 0x01, 0x82, 0x52, 0x08, 0x94] @ replicate 20 0 @ [0x80, 0x80, 0x01, 0x80, 0x80]"
    by (simp add: sign_payload_body_def demo_tx_def p w1 g a writeUint_0 writeBytes_Nil)
  have h: "encodeListHeader 31 = [0xDF]" by (simp add: encodeListHeader_def)
  have d: "Data (demo_tx\<lparr>msg_hash := 1\<rparr>) = Data demo_tx" by simp
  from RLPSignBytes_signing_payload [of 1 demo_tx demo_crypto] d
  show ?thesis by (simp add: b h)
qed

subsection \<open>Wire encoding and decoding\<close>

lemma unat_byte_add: "a + n < 256 \<Longrightarrow> unat (of_nat a + of_nat n :: byte) = a + n"
proof -
  assume "a + n < 256"
  have "unat (of_nat a + of_nat n :: byte) = unat (of_nat (a + n) :: byte)" by simp
  also have "\<dots> = (a + n) mod 256" by (simp only: unat_of_nat) simp
  finally show ?thesis using \<open>a + n < 256\<close> by simp
qed

lemma unat_byte_of_nat: "n < 256 \<Longrightarrow> unat (of_nat n :: byte) = n"
  using unat_byte_add [of 0 n] by simp

lemma header_unat:
  "n < 56 \<Longrightarrow> unat (0x80 + of_nat n :: byte) = 128 + n"
  "n < 56 \<Longrightarrow> unat (0xC0 + of_nat n :: byte) = 192 + n"
  "k \<le> 8 \<Longrightarrow> unat (0xB7 + of_nat k :: byte) = 183 + k"
  "k \<le> 8 \<Longrightarrow> unat (0xF7 + of_nat k :: byte) = 247 + k"
  using unat_byte_add [of 128 n] unat_byte_add [of 192 n] unat_byte_add [of 183 k]
    unat_byte_add [of 247 k]
  by simp_all

lemma byte_less_numeral: "(b :: byte) < numeral w \<longleftrightarrow> unat b < unat (numeral w :: byte)"
  by (rule word_less_nat_alt)

lemma length_nat_bytes_pos: "n \<noteq> 0 \<Longrightarrow> 0 < length (nat_bytes n)"
  by (simp add: nat_bytes_eq_Nil)

lemma length_nat_bytes_64: "n < 2 ^ 64 \<Longrightarrow> length (nat_bytes n) \<le> 8"
proof -
  assume "n < 2 ^ 64"
  also have "(2::nat) ^ 64 = 256 ^ 8" by simp
  finally show ?thesis by (simp add: length_nat_bytes_le)
qed

lemma be_nat_single: "be_nat [x] = unat x"
  by (simp add: be_nat_def)

lemma readUint_nat_bytes:
  assumes "n \<noteq> 0"
  shows "readUint e (length (nat_bytes n)) (nat_bytes n @ rest) = Inr (n, rest)"
proof -
  let ?ss = "nat_bytes n"
  have ne: "?ss \<noteq> []" using assms by (simp add: nat_bytes_eq_Nil)
  have hd0: "hd ?ss \<noteq> 0" using assms by (rule hd_nat_bytes)
  show ?thesis
  proof (cases "length ?ss = 1")
    case True
    then obtain x where x: "?ss = [x]" by (cases ?ss) auto
    have "unat x = n" using be_nat_nat_bytes [of n] by (simp only: x be_nat_single)
    then show ?thesis unfolding readUint_def by (simp add: x)
  next
    case False
    then show ?thesis unfolding readUint_def using ne hd0 by (simp add: be_nat_nat_bytes)
  qed
qed

lemma readKind_string_header:
  assumes "n < 2 ^ 64"
  shows "readKind e1 e2 (encodeStringHeader n @ rest) = Inr (KString, n, 0, rest)"
proof (cases "n < 56")
  case True
  then have "unat (of_nat n :: byte) = n" by (simp add: unat_byte_of_nat)
  with True show ?thesis
    by (simp add: readKind_def encodeStringHeader_def byte_less_numeral header_unat)
next
  case False
  let ?k = "length (nat_bytes n)"
  have k8: "?k \<le> 8" using assms by (rule length_nat_bytes_64)
  have nz: "n \<noteq> 0" using False by auto
  have sub: "unat (of_nat ?k :: byte) = ?k"
    using k8 by (simp add: unat_byte_of_nat)
  have ne: "nat_bytes n \<noteq> []" using nz by (simp add: nat_bytes_eq_Nil)
  show ?thesis
    using False k8 ne
    by (simp add: readKind_def encodeStringHeader_def Let_def byte_less_numeral header_unat
        sub readUint_nat_bytes [OF nz])
qed

lemma readKind_list_header:
  assumes "n < 2 ^ 64"
  shows "readKind e1 e2 (encodeListHeader n @ rest) = Inr (KList, n, 0, rest)"
proof (cases "n < 56")
  case True
  then have "unat (of_nat n :: byte) = n" by (simp add: unat_byte_of_nat)
  with True show ?thesis
    by (simp add: readKind_def encodeListHeader_def byte_less_numeral header_unat)
next
  case False
  let ?k = "length (nat_bytes n)"
  have k8: "?k \<le> 8" using assms by (rule length_nat_bytes_64)
  have nz: "n \<noteq> 0" using False by auto
  have sub: "unat (of_nat ?k :: byte) = ?k"
    using k8 by (simp add: unat_byte_of_nat)
  have ne: "nat_bytes n \<noteq> []" using nz by (simp add: nat_bytes_eq_Nil)
  show ?thesis
    using False k8 ne
    by (simp add: readKind_def encodeListHeader_def Let_def byte_less_numeral header_unat
        sub readUint_nat_bytes [OF nz])
qed

lemma stream_Kind_string_header:
  assumes "n < 2 ^ 64" and "n \<le> length rest"
  shows "stream_Kind e1 e2 (encodeStringHeader n @ rest) = Inr (KString, n, 0, rest)"
  using assms by (simp add: stream_Kind_def readKind_string_header)

lemma stream_Kind_list_header:
  assumes "n < 2 ^ 64" and "n \<le> length rest"
  shows "stream_Kind e1 e2 (encodeListHeader n @ rest) = Inr (KList, n, 0, rest)"
  using assms by (simp add: stream_Kind_def readKind_list_header)

lemma stream_Bytes_writeBytes:
  assumes "length b < 2 ^ 64"
  shows "stream_Bytes e1 e2 (writeBytes b @ rest) = Inr (b, rest)"
proof (cases "length b = 1 \<and> hd b \<le> 0x7F")
  case True
  then obtain x where x: "b = [x]" "x \<le> 0x7F" by (cases b) auto
  then have "x < 0x80" by (simp add: word_less_nat_alt word_le_nat_alt)
  then show ?thesis
    using True by (simp add: stream_Bytes_def stream_Kind_def readKind_def writeBytes_def x)
next
  case False
  have k: "stream_Kind e1 e2 (encodeStringHeader (length b) @ b @ rest) =
             Inr (KString, length b, 0, b @ rest)"
    using assms by (simp add: stream_Kind_string_header)
  have "\<not> (length b = 1 \<and> hd (b @ rest) < 128)"
  proof
    assume a: "length b = 1 \<and> hd (b @ rest) < 128"
    then obtain x where x: "b = [x]" by (cases b) auto
    with a have "x < 128" by simp
    then have "x \<le> 0x7F" by (simp add: word_less_nat_alt word_le_nat_alt)
    with False x show False by simp
  qed
  moreover have "writeBytes b = encodeStringHeader (length b) @ b"
    using False by (auto simp: writeBytes_def)
  ultimately show ?thesis
    by (simp add: stream_Bytes_def k)
qed

lemma unat_lt_2_64: "unat (i :: uint64) < 2 ^ 64"
  using unsigned_less [of i] by simp

lemma stream_uint64_writeUint:
  "stream_uint64 e1 e2 (writeUint i @ rest) = Inr (i, rest)"
proof (cases "i = 0")
  case True
  have "stream_Kind e1 e2 (0x80 # rest) = Inr (KString, 0, 0, rest)"
    using stream_Kind_string_header [of 0 rest e1 e2] by (simp add: encodeStringHeader_def)
  then show ?thesis using True by (simp add: stream_uint64_def writeUint_def readUint_def)
next
  case False
  note nz = this
  show ?thesis
  proof (cases "i < 128")
    case True
    let ?b = "ucast i :: byte"
    have ui: "unat i < 128" using True by (simp add: word_less_nat_alt)
    have ub: "unat ?b = unat i"
      using ui by (simp add: unsigned_ucast_eq take_bit_nat_eq_self)
    have b128: "?b < 0x80" using ui ub by (simp add: word_less_nat_alt)
    have bnz: "?b \<noteq> 0"
    proof
      assume "?b = 0"
      then have "unat i = 0" using ub by simp
      then show False using nz by (simp add: unat_eq_0)
    qed
    have "unat (ucast ?b :: uint64) = take_bit LENGTH(64) (unat ?b)"
      by (rule unsigned_ucast_eq)
    also have "\<dots> = unat i" using ui ub by (simp add: take_bit_nat_eq_self)
    finally have rt: "(ucast ?b :: uint64) = i" by (simp only: word_unat_eq_iff)
    show ?thesis using True nz b128 bnz rt
      by (simp add: stream_uint64_def stream_Kind_def readKind_def writeUint_def)
  next
    case False
    let ?n = "unat i" and ?bs = "nat_bytes (unat i)"
    have n128: "128 \<le> ?n" using False by (simp add: word_less_nat_alt not_less)
    then have nnz: "?n \<noteq> 0" by simp
    have k8: "length ?bs \<le> 8" using unat_lt_2_64 by (rule length_nat_bytes_64)
    have kpos: "0 < length ?bs" using nnz by (rule length_nat_bytes_pos)
    have hdr: "(0x80 + of_nat (length ?bs) :: byte) # ?bs = encodeStringHeader (length ?bs) @ ?bs"
      using k8 by (simp add: encodeStringHeader_def)
    have k: "stream_Kind e1 e2 (encodeStringHeader (length ?bs) @ ?bs @ rest) =
               Inr (KString, length ?bs, 0, ?bs @ rest)"
      using k8 by (intro stream_Kind_string_header) simp_all
    have w: "writeUint i = encodeStringHeader (length ?bs) @ ?bs"
      using False nz hdr by (simp add: writeUint_def Let_def)
    show ?thesis
      using k8 kpos n128
      by (simp add: w stream_uint64_def k readUint_nat_bytes [OF nnz])
  qed
qed

lemma EncodeRLP_eq:
  "EncodeRLP m = Some (encodeListHeader (length (wire_body (Data m))) @ wire_body (Data m))"
  by (simp add: EncodeRLP_def wire_payload_def TxData_items_def wire_body_def)

lemma length_writeBytes_ge: "length b \<le> length (writeBytes b)"
  by (simp add: writeBytes_def)

lemma decode_field_uint: "decode_field FUint64 (writeUint i @ rest) = Inr (RUint i, rest)"
  by (simp add: decode_field_def stream_uint64_writeUint)

lemma decode_field_bytes:
  "length b < 2 ^ 64 \<Longrightarrow> decode_field FBytes (writeBytes b @ rest) = Inr (RString b, rest)"
  by (simp add: decode_field_def stream_Bytes_writeBytes)

lemma field_lengths:
  assumes "length (wire_body d) < 2 ^ 64"
  shows "length (Price d) < 2 ^ 64" "length (Recipient d) < 2 ^ 64" "length (Amount d) < 2 ^ 64"
    "length (Payload d) < 2 ^ 64" "length (V d) < 2 ^ 64" "length (R d) < 2 ^ 64"
    "length (S d) < 2 ^ 64"
  using assms length_writeBytes_ge [of "Price d"] length_writeBytes_ge [of "Recipient d"]
    length_writeBytes_ge [of "Amount d"] length_writeBytes_ge [of "Payload d"]
    length_writeBytes_ge [of "V d"] length_writeBytes_ge [of "R d"]
    length_writeBytes_ge [of "S d"]
  by (simp_all add: wire_body_def)

lemma decode_fields_wire_body:
  assumes "length (wire_body d) < 2 ^ 64"
  shows "decode_fields TxData_fields (wire_body d) = Inr (TxData_items d, [])"
proof -
  note fl = field_lengths [OF assms]
  note fb = decode_field_bytes [OF fl(1)] decode_field_bytes [OF fl(2)]
    decode_field_bytes [OF fl(3)] decode_field_bytes [OF fl(4)] decode_field_bytes [OF fl(5)]
    decode_field_bytes [OF fl(6)]
  have last: "decode_field FBytes (writeBytes (S d)) = Inr (RString (S d), [])"
    using decode_field_bytes [OF fl(7), of "[]"] by simp
  show ?thesis
    by (simp add: TxData_fields_def wire_body_def TxData_items_def decode_field_uint fb last)
qed

lemma TxData_of_items_items: "TxData_of_items (TxData_items d) = d"
  by (simp add: TxData_of_items_def TxData_items_def)

lemma length_encodeListHeader: "length (encodeListHeader n) + n = ListSize n"
  by (simp add: encodeListHeader_def ListSize_def Let_def)

lemma decode_struct_wire:
  assumes "length (wire_body d) < 2 ^ 64"
  shows "decode_struct TxData_fields (encodeListHeader (length (wire_body d)) @ wire_body d @ rest)
           = Inr (TxData_items d, rest)"
  using assms
  by (simp add: decode_struct_def stream_Kind_list_header decode_fields_wire_body)

lemma DecodeRLP_wire:
  assumes "length (wire_body d) < 2 ^ 64"
  shows "DecodeRLP (encodeListHeader (length (wire_body d)) @ wire_body d @ rest) m =
           Inr (m\<lparr>Data := d, msg_size := ListSize (length (wire_body d))\<rparr>, rest)"
  using assms
  by (simp add: DecodeRLP_def stream_Kind_list_header decode_struct_wire TxData_of_items_items)

lemma DecodeBytes_EncodeRLP:
  assumes "EncodeRLP tx = Some enc" and "length enc < 2 ^ 64"
  shows "DecodeBytes enc m = Inr (m\<lparr>Data := Data tx, msg_size := length enc\<rparr>)"
proof -
  let ?b = "wire_body (Data tx)"
  have enc: "enc = encodeListHeader (length ?b) @ ?b"
    using assms(1) by (simp add: EncodeRLP_eq)
  then have len: "length ?b < 2 ^ 64" using assms(2) by simp
  have sz: "ListSize (length ?b) = length enc"
    using length_encodeListHeader [of "length ?b"] enc by simp
  show ?thesis
    using DecodeRLP_wire [OF len, of "[]" m] by (simp add: DecodeBytes_def enc [symmetric] sz)
qed

lemma readUint_canonical:
  assumes "readUint e k buf = Inr (n, rest)" and "0 < k" and "n \<noteq> 0"
  shows "buf = nat_bytes n @ rest \<and> length (nat_bytes n) = k"
proof (cases "k = 1")
  case True
  with assms have len: "buf \<noteq> []" and n: "n = unat (hd buf)" and r: "rest = tl buf"
    by (auto simp: readUint_def split: if_splits)
  from len obtain x xs where b: "buf = x # xs" by (cases buf) auto
  have "nat_bytes (be_nat [x]) = dropWhile (\<lambda>b. b = 0) [x]" by (rule nat_bytes_be_nat)
  moreover have "x \<noteq> 0" using assms(3) n b by auto
  ultimately have "nat_bytes n = [x]" using n b by (simp add: be_nat_single)
  then show ?thesis using True b r by simp
next
  case False
  with assms have len: "k \<le> length buf" and h: "hd buf \<noteq> 0"
    and n: "n = be_nat (take k buf)" and r: "rest = drop k buf"
    by (auto simp: readUint_def split: if_splits)
  from len assms(2) obtain x xs where b: "buf = x # xs" by (cases buf) auto
  from assms(2) obtain j where k: "k = Suc j" by (cases k) auto
  have "nat_bytes n = dropWhile (\<lambda>b. b = 0) (take k buf)"
    unfolding n by (rule nat_bytes_be_nat)
  also have "\<dots> = take k buf" using h b k by simp
  finally have nb: "nat_bytes n = take k buf" .
  then show ?thesis using len r by simp
qed

lemma byte_ge_numeral: "\<not> (b :: byte) < numeral w \<longleftrightarrow> unat (numeral w :: byte) \<le> unat b"
  by (simp add: word_less_nat_alt not_less)

lemma byte_sub_unat: "unat c \<le> unat (b :: byte) \<Longrightarrow> unat (b - c) = unat b - unat c"
  by (simp add: unat_sub word_le_nat_alt)

lemma byte_header_rebuild: "unat c \<le> unat (b :: byte) \<Longrightarrow> c + of_nat (unat (b - c)) = b"
  by simp

lemma readKind_canonical:
  assumes "readKind e1 e2 buf = Inr (k, n, bv, rest)"
  shows "(k = KByte \<longrightarrow> buf = bv # rest \<and> bv < 0x80 \<and> n = 0) \<and>
         (k = KString \<longrightarrow> buf = encodeStringHeader n @ rest) \<and>
         (k = KList \<longrightarrow> buf = encodeListHeader n @ rest)"
proof (cases buf)
  case Nil
  with assms show ?thesis by (simp add: readKind_def)
next
  case (Cons b rest0)
  consider (byte) "b < 0x80"
    | (short_string) "\<not> b < 0x80" "b < 0xB8"
    | (long_string) "\<not> b < 0xB8" "b < 0xC0"
    | (short_list) "\<not> b < 0xC0" "b < 0xF8"
    | (long_list) "\<not> b < 0xF8"
    by blast
  then show ?thesis
  proof cases
    case byte
    with assms Cons show ?thesis by (auto simp: readKind_def)
  next
    case short_string
    with assms Cons have k: "k = KString" and n: "n = unat (b - 0x80)" and r: "rest = rest0"
      by (auto simp: readKind_def)
    have ub: "128 \<le> unat b" "unat b < 184"
      using short_string by (simp_all add: word_less_nat_alt not_less)
    then have n56: "n < 56" using n by (simp add: byte_sub_unat)
    have "0x80 + of_nat n = b" unfolding n by simp
    then show ?thesis using k r Cons n56 by (simp add: encodeStringHeader_def)
  next
    case long_string
    let ?k = "unat (b - 0xB7)"
    have ub: "184 \<le> unat b" "unat b < 192"
      using long_string by (simp_all add: word_less_nat_alt not_less)
    then have kpos: "0 < ?k" by (simp add: byte_sub_unat)
    from assms Cons long_string obtain n' rest' where
      ru: "readUint e1 ?k rest0 = Inr (n', rest')" and n56: "\<not> n' < 56"
      and res: "k = KString" "n = n'" "rest = rest'"
      using ub by (auto simp: readKind_def word_less_nat_alt split: sum.splits prod.splits if_splits)
    have nz: "n' \<noteq> 0" using n56 by auto
    from readUint_canonical [OF ru kpos nz]
    have b0: "rest0 = nat_bytes n' @ rest'" and l: "length (nat_bytes n') = ?k" by simp_all
    have "0xB7 + of_nat (length (nat_bytes n')) = b" unfolding l by simp
    then show ?thesis using res Cons n56 b0 by (simp add: encodeStringHeader_def Let_def)
  next
    case short_list
    with assms Cons have k: "k = KList" and n: "n = unat (b - 0xC0)" and r: "rest = rest0"
      by (auto simp: readKind_def word_less_nat_alt split: if_splits)
    have ub: "192 \<le> unat b" "unat b < 248"
      using short_list by (simp_all add: word_less_nat_alt not_less)
    then have n56: "n < 56" using n by (simp add: byte_sub_unat)
    have "0xC0 + of_nat n = b" unfolding n by simp
    then show ?thesis using k r Cons n56 by (simp add: encodeListHeader_def)
  next
    case long_list
    let ?k = "unat (b - 0xF7)"
    have ub: "248 \<le> unat b"
      using long_list by (simp_all add: word_less_nat_alt not_less)
    then have kpos: "0 < ?k" by (simp add: byte_sub_unat)
    from assms Cons long_list obtain n' rest' where
      ru: "readUint e1 ?k rest0 = Inr (n', rest')" and n56: "\<not> n' < 56"
      and res: "k = KList" "n = n'" "rest = rest'"
      using ub by (auto simp: readKind_def word_less_nat_alt split: sum.splits prod.splits if_splits)
    have nz: "n' \<noteq> 0" using n56 by auto
    from readUint_canonical [OF ru kpos nz]
    have b0: "rest0 = nat_bytes n' @ rest'" and l: "length (nat_bytes n') = ?k" by simp_all
    have "0xF7 + of_nat (length (nat_bytes n')) = b" unfolding l by simp
    then show ?thesis using res Cons n56 b0 by (simp add: encodeListHeader_def Let_def)
  qed
qed

lemma stream_Kind_canonical:
  assumes "stream_Kind e1 e2 buf = Inr (k, n, bv, rest)"
  shows "n \<le> length rest \<and>
         (k = KByte \<longrightarrow> buf = bv # rest \<and> bv < 0x80 \<and> n = 0) \<and>
         (k = KString \<longrightarrow> buf = encodeStringHeader n @ rest) \<and>
         (k = KList \<longrightarrow> buf = encodeListHeader n @ rest)"
proof -
  from assms have r: "readKind e1 e2 buf = Inr (k, n, bv, rest)" and l: "n \<le> length rest"
    by (auto simp: stream_Kind_def split: sum.splits prod.splits if_splits)
  from readKind_canonical [OF r] l show ?thesis by blast
qed

lemma stream_Bytes_canonical:
  assumes "stream_Bytes e1 e2 buf = Inr (b, rest)"
  shows "buf = writeBytes b @ rest"
proof -
  from assms obtain k n bv rest0 where sk: "stream_Kind e1 e2 buf = Inr (k, n, bv, rest0)"
    by (auto simp: stream_Bytes_def split: sum.splits prod.splits)
  note c = stream_Kind_canonical [OF sk]
  show ?thesis
  proof (cases k)
    case KByte
    with assms sk have "b = [bv]" "rest = rest0" by (auto simp: stream_Bytes_def)
    moreover have "bv \<le> 0x7F" using c KByte by (simp add: word_less_nat_alt word_le_nat_alt)
    ultimately show ?thesis using c KByte by (simp add: writeBytes_def)
  next
    case KString
    with assms sk have nc: "\<not> (n = 1 \<and> hd rest0 < 128)"
      and b: "b = take n rest0" and r: "rest = drop n rest0"
      by (auto simp: stream_Bytes_def split: if_splits)
    have lb: "length b = n" using b c by simp
    have "\<not> (length b = 1 \<and> hd b \<le> 0x7F)"
    proof
      assume a: "length b = 1 \<and> hd b \<le> 0x7F"
      then have "n = 1" using lb by simp
      moreover from this have "hd b = hd rest0" using b by (cases rest0) auto
      ultimately show False using nc a by (simp add: word_less_nat_alt word_le_nat_alt)
    qed
    then have "writeBytes b = encodeStringHeader n @ b" using lb by (auto simp: writeBytes_def)
    then show ?thesis using c KString b r by simp
  next
    case KList
    with assms sk show ?thesis by (simp add: stream_Bytes_def)
  qed
qed

lemma stream_uint64_canonical:
  assumes "stream_uint64 e1 e2 buf = Inr (i, rest)"
  shows "buf = writeUint i @ rest"
proof -
  from assms obtain k n bv rest0 where sk: "stream_Kind e1 e2 buf = Inr (k, n, bv, rest0)"
    by (auto simp: stream_uint64_def split: sum.splits prod.splits)
  note c = stream_Kind_canonical [OF sk]
  show ?thesis
  proof (cases k)
    case KByte
    with assms sk have bnz: "bv \<noteq> 0" and i: "i = ucast bv" and r: "rest = rest0"
      by (auto simp: stream_uint64_def split: if_splits)
    have ub: "unat bv < 128" using c KByte by (simp add: word_less_nat_alt)
    have "unat i = take_bit LENGTH(64) (unat bv)" unfolding i by (rule unsigned_ucast_eq)
    then have ui: "unat i = unat bv" using ub by (simp add: take_bit_nat_eq_self)
    have inz: "i \<noteq> 0" using ui bnz by (metis unat_eq_0)
    have il: "i < 128" using ui ub by (simp add: word_less_nat_alt)
    have "unat (ucast i :: byte) = take_bit LENGTH(8) (unat i)" by (rule unsigned_ucast_eq)
    then have "unat (ucast i :: byte) = unat bv" using ui ub by (simp add: take_bit_nat_eq_self)
    then have "(ucast i :: byte) = bv" by (simp only: word_unat_eq_iff)
    then show ?thesis using c KByte r inz il by (simp add: writeUint_def)
  next
    case KString
    with assms sk have n8: "n \<le> 8" by (auto simp: stream_uint64_def split: if_splits)
    from assms sk KString n8 obtain v where ru: "readUint e1 n rest0 = Inr (v, rest)"
      and small: "\<not> (0 < n \<and> v < 128)" and i: "i = of_nat v"
      by (auto simp: stream_uint64_def split: if_splits sum.splits prod.splits)
    show ?thesis
    proof (cases "n = 0")
      case True
      with ru have "v = 0" "rest = rest0" by (auto simp: readUint_def)
      then show ?thesis using c KString True i
        by (simp add: writeUint_def encodeStringHeader_def)
    next
      case False
      then have npos: "0 < n" by simp
      with small have v128: "128 \<le> v" by simp
      then have vnz: "v \<noteq> 0" by simp
      from readUint_canonical [OF ru npos vnz]
      have b0: "rest0 = nat_bytes v @ rest" and l: "length (nat_bytes v) = n" by simp_all
      have "v < 256 ^ 8" using l n8 length_nat_bytes_le [of v 8] by simp
      then have v64: "v < 2 ^ 64" by simp
      have "unat i = v mod 2 ^ LENGTH(64)" unfolding i by (rule unat_of_nat)
      then have ui: "unat i = v" using v64 by simp
      have inz: "i \<noteq> 0" using ui vnz by (metis unat_eq_0)
      have ige: "\<not> i < 128" using ui v128 by (simp add: word_less_nat_alt)
      have "writeUint i = (0x80 + of_nat n) # nat_bytes v"
        using inz ige ui l by (simp add: writeUint_def Let_def)
      moreover have "encodeStringHeader n = [0x80 + of_nat n]"
        using n8 by (simp add: encodeStringHeader_def)
      ultimately show ?thesis using c KString b0 by simp
    qed
  next
    case KList
    with assms sk show ?thesis by (simp add: stream_uint64_def)
  qed
qed

lemma decode_field_canonical:
  assumes "decode_field f buf = Inr (x, rest)"
  shows "\<exists>e. rlp_encode x = Some e \<and> buf = e @ rest \<and> item_has_type f x"
proof (cases f)
  case FUint64
  with assms obtain i where "stream_uint64 ErrElemTooLarge EOL buf = Inr (i, rest)" "x = RUint i"
    by (auto simp: decode_field_def split: sum.splits prod.splits)
  then show ?thesis using stream_uint64_canonical FUint64 by auto
next
  case FBytes
  with assms obtain b where "stream_Bytes ErrElemTooLarge EOL buf = Inr (b, rest)" "x = RString b"
    by (auto simp: decode_field_def split: sum.splits prod.splits)
  then show ?thesis using stream_Bytes_canonical FBytes by auto
qed

lemma decode_fields_canonical:
  "decode_fields fs buf = Inr (xs, rest) \<Longrightarrow>
     \<exists>body. rlp_encode_list xs = Some body \<and> buf = body @ rest \<and> list_all2 item_has_type fs xs"
proof (induction fs arbitrary: buf xs)
  case Nil
  then show ?case by simp
next
  case (Cons f fs)
  from Cons.prems obtain x r1 ys where
    d1: "decode_field f buf = Inr (x, r1)" and d2: "decode_fields fs r1 = Inr (ys, rest)"
    and xs: "xs = x # ys"
    by (auto split: sum.splits prod.splits if_splits)
  from decode_field_canonical [OF d1] obtain e where
    e: "rlp_encode x = Some e" "buf = e @ r1" "item_has_type f x" by blast
  from Cons.IH [OF d2] obtain body where
    b: "rlp_encode_list ys = Some body" "r1 = body @ rest" "list_all2 item_has_type fs ys" by blast
  show ?case using e b xs by simp
qed

lemma TxData_items_of_items:
  assumes "list_all2 item_has_type TxData_fields xs"
  shows "TxData_items (TxData_of_items xs) = xs"
proof -
  from assms obtain x0 x1 x2 x3 x4 x5 x6 x7 x8 where
    xs: "xs = [x0, x1, x2, x3, x4, x5, x6, x7, x8]"
    and t: "item_has_type FUint64 x0" "item_has_type FBytes x1" "item_has_type FUint64 x2"
      "item_has_type FBytes x3" "item_has_type FBytes x4" "item_has_type FBytes x5"
      "item_has_type FBytes x6" "item_has_type FBytes x7" "item_has_type FBytes x8"
    by (auto simp: TxData_fields_def list_all2_Cons1)
  have u: "RUint (item_uint x) = x" if "item_has_type FUint64 x" for x
    using that by (cases x) auto
  have s: "RString (item_bytes x) = x" if "item_has_type FBytes x" for x
    using that by (cases x) auto
  show ?thesis
    using t by (simp add: xs TxData_items_def TxData_of_items_def u s)
qed

lemma decode_struct_canonical:
  assumes "decode_struct TxData_fields buf = Inr (xs, rest)"
  shows "rlp_encode (RList xs) \<noteq> None \<and> buf = the (rlp_encode (RList xs)) @ rest \<and>
         list_all2 item_has_type TxData_fields xs"
proof -
  from assms obtain k n bv rest0 where
    sk: "stream_Kind ErrValueTooLarge EOF buf = Inr (k, n, bv, rest0)"
    by (auto simp: decode_struct_def split: sum.splits prod.splits)
  with assms have k: "k = KList"
    and df: "decode_fields TxData_fields (take n rest0) = Inr (xs, [])"
    and r: "rest = drop n rest0"
    by (auto simp: decode_struct_def split: sum.splits prod.splits if_splits)
  from stream_Kind_canonical [OF sk] k
  have n: "n \<le> length rest0" and buf: "buf = encodeListHeader n @ rest0" by simp_all
  from decode_fields_canonical [OF df] obtain body where
    b: "rlp_encode_list xs = Some body" "take n rest0 = body" "list_all2 item_has_type TxData_fields xs"
    by auto
  have lb: "length body = n" using b(2) n by auto
  have "rest0 = body @ rest" using b(2) r append_take_drop_id [of n rest0] by simp
  then show ?thesis using b lb buf by simp
qed

lemma DecodeBytes_canonical:
  assumes "DecodeBytes buf m = Inr m'"
  shows "EncodeRLP m' = Some buf"
proof -
  from assms obtain xs k n bv rest0 where
    sk: "stream_Kind ErrValueTooLarge EOF buf = Inr (k, n, bv, rest0)"
    and ds: "decode_struct TxData_fields buf = Inr (xs, [])"
    and m': "m' = m\<lparr>Data := TxData_of_items xs, msg_size := ListSize n\<rparr>"
    by (auto simp: DecodeBytes_def DecodeRLP_def split: sum.splits prod.splits if_splits)
  from decode_struct_canonical [OF ds]
  have "rlp_encode (RList xs) = Some buf" and "list_all2 item_has_type TxData_fields xs"
    by auto
  then show ?thesis
    by (simp add: EncodeRLP_def wire_payload_def m' TxData_items_of_items)
qed

text \<open>
  C8, as the code has it: every transaction whose encoding is shorter than \<open>2^64\<close> bytes
  is encoded by \<^verbatim>\<open>EncodeRLP\<close> and decoded back by \<^verbatim>\<open>DecodeRLP\<close> (through
  \<^verbatim>\<open>rlp.DecodeBytes\<close>) to the same data, with the size cache set to the length of the
  encoding; what the decoder accepts is the encoding of what it returns, so no other byte
  sequence decodes to the same data; and a \<^verbatim>\<open>uint64\<close> field (nonce, gas limit) is
  accepted in its minimal encoding only.  The fields gasPrice, amount, V, R and S are byte
  slices: they are returned as written, leading zero bytes included.
\<close>

theorem wire_round_trip:
  "EncodeRLP tx \<noteq> None \<and>
   (EncodeRLP tx = Some enc \<and> length enc < 2 ^ 64 \<longrightarrow>
      DecodeBytes enc m = Inr (m\<lparr>Data := Data tx, msg_size := length enc\<rparr>)) \<and>
   (DecodeBytes buf m = Inr m' \<longrightarrow> EncodeRLP m' = Some buf) \<and>
   (stream_uint64 too_large at_end buf = Inr (i, rest) \<longrightarrow> buf = writeUint i @ rest)"
  using DecodeBytes_EncodeRLP [of tx enc m] DecodeBytes_canonical [of buf m m']
    stream_uint64_canonical [of too_large at_end buf i rest]
  by (simp add: EncodeRLP_eq)

lemma demo_tx_wire:
  "EncodeRLP demo_tx =
     Some ([0xDF, 0x80, 0x01, 0x82, 0x52, 0x08, 0x94] @ replicate 20 0 @
           [0x80, 0x80, 0x80, 0x80, 0x80])"
proof -
  have w1: "writeBytes [1] = [1]" by (simp add: writeBytes_def)
  have g: "writeUint 21000 = [0x82, 0x52, 0x08]"
    by (simp add: writeUint_def nat_bytes_21000)
  have a: "writeBytes (replicate 20 0) = 0x94 # replicate 20 0"
    by (simp add: writeBytes_def encodeStringHeader_def)
  have b: "wire_body (Data demo_tx) =
      [0x80, 0x01, 0x82, 0x52, 0x08, 0x94] @ replicate 20 0 @ [0x80, 0x80, 0x80, 0x80, 0x80]"
    by (simp add: wire_body_def demo_tx_def w1 g a writeUint_0 writeBytes_Nil)
  have h: "encodeListHeader 31 = [0xDF]" by (simp add: encodeListHeader_def)
  show ?thesis by (simp add: EncodeRLP_eq b h)
qed

theorem wire_round_trip_witness:
  "DecodeBytes ([0xDF, 0x80, 0x01, 0x82, 0x52, 0x08, 0x94] @ replicate 20 0 @
                [0x80, 0x80, 0x80, 0x80, 0x80]) demo_tx = Inr (demo_tx\<lparr>msg_size := 32\<rparr>) \<and>
   EncodeRLP (demo_tx\<lparr>msg_size := 32\<rparr>) =
     Some ([0xDF, 0x80, 0x01, 0x82, 0x52, 0x08, 0x94] @ replicate 20 0 @
           [0x80, 0x80, 0x80, 0x80, 0x80]) \<and>
   stream_uint64 ErrElemTooLarge EOL [0x82, 0x52, 0x08] = Inr (21000, []) \<and>
   writeUint 21000 = [0x82, 0x52, 0x08]"
proof -
  let ?w = "[0xDF, 0x80, 0x01, 0x82, 0x52, 0x08, 0x94] @ replicate 20 0 @
            [0x80, 0x80, 0x80, 0x80, 0x80] :: bytes"
  have l: "length ?w < 2 ^ 64" by simp
  have d: "demo_tx\<lparr>Data := Data demo_tx, msg_size := length ?w\<rparr> = demo_tx\<lparr>msg_size := 32\<rparr>"
    by simp
  have 1: "DecodeBytes ?w demo_tx = Inr (demo_tx\<lparr>msg_size := 32\<rparr>)"
    using wire_round_trip [of demo_tx ?w demo_tx] demo_tx_wire l d by simp
  have 2: "EncodeRLP (demo_tx\<lparr>msg_size := 32\<rparr>) = Some ?w"
    using wire_round_trip [where buf = ?w and m = demo_tx and m' = "demo_tx\<lparr>msg_size := 32\<rparr>"] 1
    by blast
  have u: "stream_uint64 ErrElemTooLarge EOL [0x82, 0x52, 0x08] = Inr (21000, [])"
    by (simp add: stream_uint64_def stream_Kind_def readKind_def readUint_def be_nat_def)
  have 3: "writeUint 21000 = [0x82, 0x52, 0x08]"
    using wire_round_trip [where buf = "[0x82, 0x52, 0x08]" and too_large = ErrElemTooLarge
        and at_end = EOL and i = 21000 and rest = "[]"] u
    by simp
  from 1 2 u 3 show ?thesis by blast
qed

text \<open>
  The claim as stated fails: the input below writes the gas price 1 as the two bytes
  \<open>00 01\<close>, a non-minimal integer, and is decoded without an error.  A nonce written
  as the byte \<open>00\<close> is refused.
\<close>

theorem DecodeBytes_accepts_leading_zero_gasPrice:
  "DecodeBytes ([0xE1, 0x80, 0x82, 0x00, 0x01, 0x82, 0x52, 0x08, 0x94] @ replicate 20 0 @
                [0x80, 0x80, 0x80, 0x80, 0x80]) demo_tx =
     Inr (demo_tx\<lparr>Data := (Data demo_tx)\<lparr>Price := [0, 1]\<rparr>, msg_size := 34\<rparr>)"
  by (simp add: DecodeBytes_def DecodeRLP_def decode_struct_def stream_Kind_def readKind_def
      TxData_fields_def decode_field_def stream_uint64_def stream_Bytes_def readUint_def
      TxData_of_items_def ListSize_def demo_tx_def be_nat_def)

lemma DecodeBytes_rejects_zero_nonce_byte:
  "DecodeBytes ([0xDF, 0x00, 0x01, 0x82, 0x52, 0x08, 0x94] @ replicate 20 0 @
                [0x80, 0x80, 0x80, 0x80, 0x80]) demo_tx = Inl ErrCanonInt"
  by (simp add: DecodeBytes_def DecodeRLP_def decode_struct_def stream_Kind_def readKind_def
      TxData_fields_def decode_field_def stream_uint64_def)

lemma DecodeBytes_rejects_leading_zero_gasLimit:
  "DecodeBytes ([0xE0, 0x80, 0x01, 0x83, 0x00, 0x52, 0x08, 0x94] @ replicate 20 0 @
                [0x80, 0x80, 0x80, 0x80, 0x80]) demo_tx = Inl ErrCanonInt"
  by (simp add: DecodeBytes_def DecodeRLP_def decode_struct_def stream_Kind_def readKind_def
      TxData_fields_def decode_field_def stream_uint64_def stream_Bytes_def readUint_def)

end
